theory Spec2Isabelle
  imports Complex_Main "HOL-Library.AList" "HOL-Library.Log_Nat"
begin

section \<open>Common Python notions\<close>

text \<open>
  Numbers. A finite Python \<open>float\<close> or \<open>int\<close> is the rational number it denotes
  (\<^typ>\<open>rat\<close>), so comparisons are the mathematical ones, as in Python. In the risk
  classifier numbers are compared after at most one division, which is taken exact; in
  the forecast ingestion every float operation rounds its exact result through \<open>float_of\<close>
  (see below). \<open>None\<close> is \<^term>\<open>None :: rat option\<close>.

  Exceptions are values of \<open>py_error\<close>; a function that may raise returns
  \<open>py_error + 'a\<close>, with \<open>Inl\<close> for the raised exception.
\<close>

datatype py_error =
    KeyError string
  | ValueError string
  | RequestException string
  | ZeroDivisionError
  | OverflowError string


text \<open>\<open>d[k]\<close> on a dict that is only read: a missing key raises \<open>KeyError\<close>.\<close>

definition getitem :: "(string \<rightharpoonup> 'v) \<Rightarrow> string \<Rightarrow> py_error + 'v" where
  "getitem d k = (case d k of None \<Rightarrow> Inl (KeyError k) | Some v \<Rightarrow> Inr v)"

text \<open>Sequencing of computations that may raise.\<close>

definition bind_err :: "'e + 'a \<Rightarrow> ('a \<Rightarrow> 'e + 'b) \<Rightarrow> 'e + 'b" where
  "bind_err m f = (case m of Inl e \<Rightarrow> Inl e | Inr x \<Rightarrow> f x)"

text \<open>
  A dict that the code iterates over or builds by assignment is an association list in
  insertion order; \<open>d[k] = v\<close> is \<^const>\<open>AList.update\<close> (replace in place, else append)
  and \<open>d.get(k)\<close> is \<^const>\<open>map_of\<close>.
\<close>

type_synonym ('k, 'v) dict = "('k \<times> 'v) list"

section \<open>Risk classification (src/core/risk\_logic.py)\<close>

text \<open>The four strings the classifier returns.\<close>

datatype risk = LOW | MEDIUM | HIGH | UNKNOWN

type_synonym bands = "string \<rightharpoonup> rat"

text \<open>
  \<open>_risk_from_rain\<close>. The subscripts \<open>thresholds["medium"]\<close>, \<open>["low"]\<close>, \<open>["high"]\<close> are
  evaluated in the order of the source, each only on the branch that reaches it.
\<close>

definition risk_from_rain :: "rat option \<Rightarrow> bands \<Rightarrow> py_error + risk" where
  "risk_from_rain rain_mm thresholds =
     (case rain_mm of
        None \<Rightarrow> Inr UNKNOWN
      | Some r \<Rightarrow>
          bind_err (getitem thresholds ''medium'') (\<lambda>medium.
            if r \<le> medium then
              bind_err (getitem thresholds ''low'') (\<lambda>low.
                Inr (if r \<le> low then LOW else MEDIUM))
            else
              bind_err (getitem thresholds ''high'') (\<lambda>high.
                Inr (if r > high then HIGH else MEDIUM))))"

text \<open>\<open>_risk_from_stage\<close>.\<close>

definition risk_from_stage :: "rat option \<Rightarrow> rat option \<Rightarrow> bands \<Rightarrow> py_error + risk" where
  "risk_from_stage stage_ft flood_stage_ft thresholds =
     (case (stage_ft, flood_stage_ft) of
        (Some s, Some f) \<Rightarrow>
          if f = 0 then Inr UNKNOWN
          else
            (let ratio = s / f in
             bind_err (getitem thresholds ''medium'') (\<lambda>medium.
               if ratio \<le> medium then
                 bind_err (getitem thresholds ''low'') (\<lambda>low.
                   Inr (if ratio \<le> low then LOW else MEDIUM))
               else
                 bind_err (getitem thresholds ''high'') (\<lambda>high.
                   Inr (if ratio > high then HIGH else MEDIUM))))
      | _ \<Rightarrow> Inr UNKNOWN)"

text \<open>The local list \<open>risk_order\<close> and the local function \<open>rank\<close> of \<open>classify_gauge\<close>.\<close>

definition risk_order :: "risk list" where
  "risk_order = [LOW, MEDIUM, HIGH]"

text \<open>\<open>list.index\<close>, used only on members.\<close>

fun list_index :: "'a list \<Rightarrow> 'a \<Rightarrow> nat" where
  "list_index [] x = 0"
| "list_index (y # ys) x = (if y = x then 0 else Suc (list_index ys x))"

definition rank :: "risk \<Rightarrow> int" where
  "rank r = (if r \<in> set risk_order then int (list_index risk_order r) else - 1)"

text \<open>
  \<open>max(a, b, key=k)\<close>: Python keeps the first argument unless a later one has a strictly
  greater key.
\<close>

definition max_by_key :: "('a \<Rightarrow> int) \<Rightarrow> 'a \<Rightarrow> 'a \<Rightarrow> 'a" where
  "max_by_key k a b = (if k b > k a then b else a)"

record assessment_inputs =
  in_stage_ft :: "rat option"
  in_flood_stage_ft :: "rat option"
  in_rain_mm_72h :: "rat option"

record risk_assessment =
  gauge_id :: string
  risk :: risk
  rain_risk :: risk
  stage_risk :: risk
  stage_ratio :: "rat option"
  inputs :: assessment_inputs

text \<open>
  The \<open>stage_ratio\<close> field: \<open>(stage_ft / flood_stage_ft) if stage_ft is not None and
  flood_stage_ft else None\<close>; \<open>None\<close> and \<open>0\<close> are falsy.
\<close>

definition stage_ratio_of :: "rat option \<Rightarrow> rat option \<Rightarrow> rat option" where
  "stage_ratio_of stage_ft flood_stage_ft =
     (case (stage_ft, flood_stage_ft) of
        (Some s, Some f) \<Rightarrow> if f \<noteq> 0 then Some (s / f) else None
      | _ \<Rightarrow> None)"

definition classify_gauge ::
  "string \<Rightarrow> rat option \<Rightarrow> rat option \<Rightarrow> rat option \<Rightarrow> (string \<rightharpoonup> bands)
     \<Rightarrow> py_error + risk_assessment" where
  "classify_gauge gid stage_ft flood_stage_ft rain_mm_72h thresholds =
     bind_err (getitem thresholds ''rainfall_mm_72h'') (\<lambda>rain_thresholds.
     bind_err (getitem thresholds ''river_stage_ratio'') (\<lambda>stage_thresholds.
     bind_err (risk_from_rain rain_mm_72h rain_thresholds) (\<lambda>rr.
     bind_err (risk_from_stage stage_ft flood_stage_ft stage_thresholds) (\<lambda>sr.
       Inr \<lparr> gauge_id = gid,
             risk = max_by_key rank rr sr,
             rain_risk = rr,
             stage_risk = sr,
             stage_ratio = stage_ratio_of stage_ft flood_stage_ft,
             inputs = \<lparr> in_stage_ft = stage_ft,
                        in_flood_stage_ft = flood_stage_ft,
                        in_rain_mm_72h = rain_mm_72h \<rparr> \<rparr>))))"

section \<open>Data exchanged with the external services\<close>

text \<open>
  Floats. A finite float is a binary64 number. \<open>float_of x\<close> is the float nearest to the
  rational \<open>x\<close>: \<open>x\<close> rounded to 53 significant bits, ties to the even significand. Each
  float operation of the forecast ingestion returns \<open>float_of\<close> of its exact result, as IEEE 754
  arithmetic does. The exponent range is not bounded in the model: overflow to infinity
  and gradual underflow are not represented, and the statements about sums of floats are
  made for the inputs on which neither occurs (\<open>within_float_range\<close> below).
\<close>

definition round_half_even :: "rat \<Rightarrow> int" where
  "round_half_even x =
     (let f = \<lfloor>x\<rfloor>; d = x - of_int f
      in if d < 1/2 then f else if d > 1/2 then f + 1 else if even f then f else f + 1)"

text \<open>\<open>ilog2 y\<close> is the integer \<open>k\<close> with \<open>2^k \<le> y < 2^(k+1)\<close>, for \<open>y > 0\<close>.\<close>

definition ilog2 :: "rat \<Rightarrow> int" where
  "ilog2 y = (if 1 \<le> y then bitlen \<lfloor>y\<rfloor> - 1 else - bitlen (\<lceil>1 / y\<rceil> - 1))"

definition float_of :: "rat \<Rightarrow> rat" where
  "float_of x =
     (if x = 0 then 0
      else (let e = ilog2 \<bar>x\<bar> - 52
            in of_int (round_half_even (x / 2 powi e)) * 2 powi e))"

text \<open>The value of \<open>float(s)\<close>, which may be an infinity or a NaN (\<open>float("inf")\<close>).\<close>

datatype pyfloat = Finite rat | PosInf | NegInf | NaN

text \<open>\<open>x / 60.0\<close> on such a value.\<close>

fun div_60 :: "pyfloat \<Rightarrow> pyfloat" where
  "div_60 (Finite x) = Finite (float_of (x / 60))"
| "div_60 PosInf = PosInf"
| "div_60 NegInf = NegInf"
| "div_60 NaN = NaN"

text \<open>
  Timestamps of the stage data are carried as the instant they denote, in microseconds.
\<close>

type_synonym instant = int

text \<open>
  A \<open>datetime\<close> of the forecast ingestion: \<open>wall_us\<close> is the reading of its calendar and
  clock fields, in microseconds since 0001-01-01T00:00:00, and \<open>utcoffset_us\<close> the offset of
  its time zone (\<open>None\<close> for a naive value). The fields range from year 1 to year 9999, so
  \<open>0 \<le> wall_us \<le> max_wall_us\<close>. A \<open>timedelta\<close> is a number of microseconds, of at most
  999999999 days in magnitude.
\<close>

record datetime =
  wall_us :: int
  utcoffset_us :: "int option"

type_synonym timedelta = int

definition us_per_hour :: int where
  "us_per_hour = 3600000000"

definition us_per_day :: int where
  "us_per_day = 86400000000"

text \<open>9999-12-31T23:59:59.999999, the day of ordinal 3652059.\<close>

definition max_wall_us :: int where
  "max_wall_us = 3652059 * us_per_day - 1"

text \<open>The instant an aware \<open>datetime\<close> denotes; aware values compare by it.\<close>

definition utc_instant :: "datetime \<Rightarrow> int" where
  "utc_instant dt = wall_us dt - (case utcoffset_us dt of None \<Rightarrow> 0 | Some off \<Rightarrow> off)"

text \<open>\<open>dt.replace(tzinfo=timezone.utc) if dt.tzinfo is None else dt\<close>.\<close>

definition utc_if_naive :: "datetime \<Rightarrow> datetime" where
  "utc_if_naive dt = (if utcoffset_us dt = None then dt \<lparr> utcoffset_us := Some 0 \<rparr> else dt)"

text \<open>
  \<open>dt + td\<close>: the fields move by \<open>td\<close>, the zone stays, and a result outside the years 1
  to 9999 raises \<open>OverflowError\<close>.
\<close>

definition dt_add :: "datetime \<Rightarrow> timedelta \<Rightarrow> py_error + datetime" where
  "dt_add dt td =
     (let w = wall_us dt + td
      in if 0 \<le> w \<and> w \<le> max_wall_us then Inr (dt \<lparr> wall_us := w \<rparr>)
         else Inl (OverflowError ''date value out of range''))"

text \<open>
  \<open>max(a, b)\<close> and \<open>min(a, b)\<close> keep the first argument unless the second is strictly
  greater (smaller); \<open>a - b\<close> of two aware values is the difference of their instants.
\<close>

definition dt_max :: "datetime \<Rightarrow> datetime \<Rightarrow> datetime" where
  "dt_max a b = (if utc_instant b > utc_instant a then b else a)"

definition dt_min :: "datetime \<Rightarrow> datetime \<Rightarrow> datetime" where
  "dt_min a b = (if utc_instant b < utc_instant a then b else a)"

definition dt_sub :: "datetime \<Rightarrow> datetime \<Rightarrow> timedelta" where
  "dt_sub a b = utc_instant a - utc_instant b"

text \<open>
  \<open>td.total_seconds()\<close>, the correctly rounded quotient of two integers, and
  \<open>td.total_seconds() / 3600\<close>.
\<close>

definition total_seconds :: "timedelta \<Rightarrow> rat" where
  "total_seconds td = float_of (of_int td / 1000000)"

definition total_hours :: "timedelta \<Rightarrow> rat" where
  "total_hours td = float_of (total_seconds td / 3600)"

text \<open>
  \<open>timedelta(hours=h)\<close> for a float \<open>h\<close>, as the constructor computes it: the integral
  part of \<open>h\<close> counts exactly; the fractional part, if any, is multiplied by 3600000000
  in float arithmetic and rounded to the nearest microsecond, ties to even. A result of
  more than 999999999 days in magnitude raises \<open>OverflowError\<close>, as does an infinite \<open>h\<close>;
  a NaN raises \<open>ValueError\<close>. (For the integer \<open>0\<close> the result is the same as for \<open>0.0\<close>.
  The message of the first error also names the number of days, which is left out.)
\<close>

definition trunc :: "rat \<Rightarrow> int" where
  "trunc x = (if 0 \<le> x then \<lfloor>x\<rfloor> else \<lceil>x\<rceil>)"

definition us_of_hours :: "rat \<Rightarrow> int" where
  "us_of_hours h =
     (let i = trunc h; f = h - of_int i
      in i * us_per_hour +
         (if f = 0 then 0 else round_half_even (float_of (of_int us_per_hour * f))))"

definition timedelta_of_us :: "int \<Rightarrow> py_error + timedelta" where
  "timedelta_of_us us =
     (let days = us div us_per_day
      in if - 999999999 \<le> days \<and> days \<le> 999999999 then Inr us
         else Inl (OverflowError ''days; must have magnitude <= 999999999''))"

fun timedelta_hours :: "pyfloat \<Rightarrow> py_error + timedelta" where
  "timedelta_hours (Finite h) = timedelta_of_us (us_of_hours h)"
| "timedelta_hours PosInf = Inl (OverflowError ''cannot convert float infinity to integer'')"
| "timedelta_hours NegInf = Inl (OverflowError ''cannot convert float infinity to integer'')"
| "timedelta_hours NaN = Inl (ValueError ''cannot convert float NaN to integer'')"

text \<open>
  Library functions the code calls on strings are parameters of the model:
  \<open>py_float s\<close> is the value of \<open>float(s)\<close>, \<open>None\<close> where \<open>float\<close> raises \<open>ValueError\<close>;
  \<open>fromisoformat s\<close> is the value of \<open>datetime.fromisoformat(s)\<close>, \<open>None\<close> where it raises;
  \<open>str_float x\<close> is the text an f-string gives for a number.
\<close>

record builtins =
  py_float :: "string \<Rightarrow> pyfloat option"
  fromisoformat :: "string \<Rightarrow> datetime option"
  str_float :: "rat \<Rightarrow> string"

text \<open>
  An entry of the gauge list of the YAML configuration. The \<open>id\<close> key may be missing,
  present with a null value, or present with a scalar (given by its \<open>str\<close> rendering).
\<close>

datatype yaml_id = Absent | Null | Scalar string

record gauge_item =
  cfg_id :: yaml_id
  cfg_latitude :: "rat option"
  cfg_longitude :: "rat option"
  cfg_flood_stage_ft :: "rat option"

text \<open>\<open>str(gauge.get("id"))\<close>: a missing or null id prints as \<open>None\<close>.\<close>

fun str_id :: "yaml_id \<Rightarrow> string" where
  "str_id Absent = ''None''"
| "str_id Null = ''None''"
| "str_id (Scalar s) = s"

text \<open>
  The USGS instantaneous-values response. A sample's \<open>sample_value\<close> is the result of
  \<open>float(entry.get("value"))\<close>, \<open>None\<close> where that raises \<open>TypeError\<close> or \<open>ValueError\<close>;
  its \<open>dateTime\<close> is the instant the timestamp string denotes, \<open>None\<close> where the field is
  missing, null or empty (the falsy values). The code never parses or compares the
  timestamp; it only tests its truthiness and stores it.
\<close>

record sample =
  sample_value :: "rat option"
  dateTime :: "instant option"

text \<open>
  A block of \<open>timeSeries\<close>: \<open>variableCode\<close> lists the \<open>value\<close> field of each code of
  \<open>variable.variableCode\<close>, \<open>values_blocks\<close> lists the \<open>value\<close> array of each element of
  \<open>values\<close>.
\<close>

record series =
  variableCode :: "string option list"
  values_blocks :: "sample list list"

text \<open>\<open>payload.get("value", {}).get("timeSeries", [])\<close>.\<close>

type_synonym usgs_payload = "series list"

record usgs_result =
  obs_gauge_id :: string
  obs_timestamp :: "instant option"
  obs_stage_ft :: "rat option"
  obs_discharge_cfs :: "rat option"
  obs_raw :: usgs_payload

text \<open>An entry of the mapping \<open>fetch_all_gauges\<close> returns: a result or \<open>{gauge_id, error}\<close>.\<close>

datatype usgs_entry = Observation usgs_result | UsgsFailed string string

text \<open>The NWS \<open>points\<close> response: the fields read from \<open>properties\<close>.\<close>

record point_props =
  gridId :: "string option"
  gridX :: "int option"
  gridY :: "int option"
  forecastGridData :: "string option"


text \<open>
  The NWS gridpoint response: the \<open>values\<close> arrays of \<open>quantitativePrecipitation\<close> and
  \<open>probabilityOfPrecipitation\<close> (empty where a level is missing).
\<close>

record grid_value =
  validTime :: "string option"
  gv_value :: "rat option"

record forecast_payload =
  qpf_values :: "grid_value list"
  pop_values :: "grid_value list"

record qpf_entry =
  qe_start :: "datetime option"
  qe_duration :: "timedelta option"
  qe_value_mm :: "rat option"

record pop_entry =
  pe_start :: datetime
  pe_duration :: timedelta
  pe_probability_pct :: "rat option"

record forecast =
  qpf :: "qpf_entry list"
  pop :: "pop_entry list"
  fc_raw :: forecast_payload

record rain_result =
  rr_gauge_id :: string
  rr_lat :: rat
  rr_lon :: rat
  rain_72h_mm :: rat
  rr_raw :: forecast_payload

datatype rain_entry = Forecast rain_result | ForecastFailed string string

text \<open>
  The outside world. Each HTTP exchange (\<open>requests.get\<close>, \<open>raise_for_status\<close>,
  \<open>resp.json()\<close>) and the clock read the world \<open>'w\<close> and return the next one; a failed
  exchange is a \<open>RequestException\<close>, a body that is not JSON a \<open>ValueError\<close>.
  \<open>utc_now\<close> is \<open>datetime.now(timezone.utc)\<close>.
\<close>

record 'w services =
  usgs_iv :: "string \<Rightarrow> 'w \<Rightarrow> (py_error + usgs_payload) \<times> 'w"
  nws_points :: "rat \<Rightarrow> rat \<Rightarrow> 'w \<Rightarrow> (py_error + point_props option) \<times> 'w"
  nws_gridpoint :: "string \<Rightarrow> 'w \<Rightarrow> (py_error + forecast_payload) \<times> 'w"
  utc_now :: "'w \<Rightarrow> datetime \<times> 'w"

section \<open>Stage ingestion (src/data\_ingestion/usgs\_fetch.py)\<close>

text \<open>\<open>variable_codes[0].get("value") if variable_codes else None\<close>.\<close>

definition param_code_of :: "series \<Rightarrow> string option" where
  "param_code_of s = (case variableCode s of [] \<Rightarrow> None | c # _ \<Rightarrow> c)"

text \<open>\<open>a or b\<close> on values whose only falsy form is \<open>None\<close>.\<close>

definition py_or :: "'a option \<Rightarrow> 'a option \<Rightarrow> 'a option" where
  "py_or a b = (case a of Some x \<Rightarrow> Some x | None \<Rightarrow> b)"

text \<open>
  The body of \<open>for series in time_series\<close> in \<open>fetch_usgs_gauge_data\<close>, on the loop
  variables \<open>(stage_ft, discharge_cfs, latest_ts)\<close>. Each \<open>continue\<close> leaves them unchanged.
\<close>

type_synonym usgs_vars = "rat option \<times> rat option \<times> instant option"

definition series_step :: "series \<Rightarrow> usgs_vars \<Rightarrow> usgs_vars" where
  "series_step s vars =
     (case vars of (stage_ft, discharge_cfs, latest_ts) \<Rightarrow>
        (case values_blocks s of
           [] \<Rightarrow> vars
         | entries # _ \<Rightarrow>
             if entries = [] then vars
             else
               (let latest_entry = last entries in
                case sample_value latest_entry of
                  None \<Rightarrow> vars
                | Some v \<Rightarrow>
                    (let timestamp = dateTime latest_entry in
                     if param_code_of s = Some ''00065''
                     then (Some v, discharge_cfs, py_or timestamp latest_ts)
                     else if param_code_of s = Some ''00060''
                     then (stage_ft, Some v, py_or timestamp latest_ts)
                     else vars))))"

fun series_loop :: "series list \<Rightarrow> usgs_vars \<Rightarrow> usgs_vars" where
  "series_loop [] vars = vars"
| "series_loop (s # ss) vars = series_loop ss (series_step s vars)"

text \<open>The part of \<open>fetch_usgs_gauge_data\<close> that follows the HTTP exchange.\<close>

definition usgs_result_of_payload :: "string \<Rightarrow> usgs_payload \<Rightarrow> py_error + usgs_result" where
  "usgs_result_of_payload gid time_series =
     (if time_series = []
      then Inl (ValueError (''No timeSeries data returned for gauge '' @ gid))
      else
        (case series_loop time_series (None, None, None) of
           (stage_ft, discharge_cfs, latest_ts) \<Rightarrow>
             if stage_ft = None \<and> discharge_cfs = None
             then Inl (ValueError (''Missing stage/discharge values for gauge '' @ gid))
             else Inr \<lparr> obs_gauge_id = gid,
                        obs_timestamp = latest_ts,
                        obs_stage_ft = stage_ft,
                        obs_discharge_cfs = discharge_cfs,
                        obs_raw = time_series \<rparr>))"

definition fetch_usgs_gauge_data ::
  "'w services \<Rightarrow> string \<Rightarrow> 'w \<Rightarrow> (py_error + usgs_result) \<times> 'w" where
  "fetch_usgs_gauge_data sv gid w =
     (case usgs_iv sv gid w of
        (Inl exc, w') \<Rightarrow> (Inl exc, w')
      | (Inr payload, w') \<Rightarrow> (usgs_result_of_payload gid payload, w'))"



section \<open>Forecast ingestion (src/data\_ingestion/nws\_fetch.py)\<close>



text \<open>\<open>s.split(c)\<close> for a one-character separator: always at least one piece.\<close>

fun split_on :: "char \<Rightarrow> string \<Rightarrow> string list" where
  "split_on c [] = [[]]"
| "split_on c (x # xs) =
     (if x = c then [] # split_on c xs
      else (case split_on c xs of
              [] \<Rightarrow> [[x]]
            | p # ps \<Rightarrow> (x # p) # ps))"

definition startswith :: "string \<Rightarrow> string \<Rightarrow> bool" where
  "startswith s p = (take (length p) s = p)"

definition endswith :: "string \<Rightarrow> string \<Rightarrow> bool" where
  "endswith s p = (length p \<le> length s \<and> drop (length s - length p) s = p)"

text \<open>The slice \<open>s[2:-1]\<close>.\<close>

definition slice_2_to_last :: "string \<Rightarrow> string" where
  "slice_2_to_last s = drop 2 (butlast s)"

text \<open>
  \<open>_parse_valid_time\<close>. Unpacking the split into two names raises unless there are exactly
  two pieces; \<open>except Exception\<close> logs and re-raises, so each failure is an \<open>Inl\<close>.
\<close>

definition parse_float :: "builtins \<Rightarrow> string \<Rightarrow> py_error + pyfloat" where
  "parse_float bi s =
     (case py_float bi s of
        None \<Rightarrow> Inl (ValueError (''could not convert string to float: '' @ s))
      | Some x \<Rightarrow> Inr x)"

definition parse_valid_time :: "builtins \<Rightarrow> string \<Rightarrow> py_error + (datetime \<times> timedelta)" where
  "parse_valid_time bi valid_time =
     (case split_on CHR ''/'' valid_time of
        [start_str, duration_str] \<Rightarrow>
          (case fromisoformat bi start_str of
             None \<Rightarrow> Inl (ValueError (''Invalid isoformat string: '' @ start_str))
           | Some parsed \<Rightarrow>
               (let start_dt = utc_if_naive parsed in
                bind_err
                  (if startswith duration_str ''PT'' \<and> endswith duration_str ''H''
                   then parse_float bi (slice_2_to_last duration_str)
                   else if startswith duration_str ''PT'' \<and> endswith duration_str ''M''
                   then bind_err (parse_float bi (slice_2_to_last duration_str))
                          (\<lambda>minutes. Inr (div_60 minutes))
                   else Inr (Finite 0))
                  (\<lambda>hours. bind_err (timedelta_hours hours) (\<lambda>duration.
                     Inr (start_dt, duration)))))
      | _ \<Rightarrow> Inl (ValueError ''wrong number of values to unpack (expected 2)''))"

text \<open>
  The two loops of \<open>fetch_nws_forecast\<close>: an item without the needed fields, or whose
  \<open>validTime\<close> does not parse, is skipped; the others are appended in order.
  \<open>float(value_mm)\<close> of a JSON number is the nearest float.
\<close>

fun qpf_entries_of :: "builtins \<Rightarrow> grid_value list \<Rightarrow> qpf_entry list" where
  "qpf_entries_of bi [] = []"
| "qpf_entries_of bi (item # items) =
     (case (validTime item, gv_value item) of
        (Some valid_time, Some value_mm) \<Rightarrow>
          (case parse_valid_time bi valid_time of
             Inl exc \<Rightarrow> qpf_entries_of bi items
           | Inr (start_dt, duration) \<Rightarrow>
               \<lparr> qe_start = Some start_dt, qe_duration = Some duration,
                 qe_value_mm = Some (float_of value_mm) \<rparr> # qpf_entries_of bi items)
      | _ \<Rightarrow> qpf_entries_of bi items)"



text \<open>Float division \<open>a / b\<close>, which raises on a zero divisor.\<close>

definition py_truediv :: "rat \<Rightarrow> rat \<Rightarrow> py_error + rat" where
  "py_truediv a b = (if b = 0 then Inl ZeroDivisionError else Inr (float_of (a / b)))"

text \<open>
  The loop of \<open>compute_72h_rain_mm\<close> over the entries of \<open>forecast["qpf"]\<close>, for the window
  from \<open>window_start\<close> to \<open>window_end\<close> and the running \<open>total_mm\<close>. The sum
  \<open>start + duration\<close> is formed before any guard and may raise.
\<close>

fun rain_loop :: "datetime \<Rightarrow> datetime \<Rightarrow> qpf_entry list \<Rightarrow> rat \<Rightarrow> py_error + rat" where
  "rain_loop window_start window_end [] total_mm = Inr total_mm"
| "rain_loop window_start window_end (entry # entries) total_mm =
     (case (qe_start entry, qe_duration entry, qe_value_mm entry) of
        (Some start0, Some duration, Some value_mm) \<Rightarrow>
          (let start = utc_if_naive start0 in
           bind_err (dt_add start duration) (\<lambda>end_dt.
             (let overlap_start = dt_max start window_start;
                  overlap_end = dt_min end_dt window_end
              in if utc_instant overlap_start \<ge> utc_instant overlap_end
                 then rain_loop window_start window_end entries total_mm
                 else
                   (let interval_hours = total_hours duration;
                        overlap_hours = total_hours (dt_sub overlap_end overlap_start)
                    in if interval_hours \<le> 0
                       then rain_loop window_start window_end entries total_mm
                       else bind_err (py_truediv overlap_hours interval_hours) (\<lambda>fraction.
                              rain_loop window_start window_end entries
                                (float_of (total_mm + float_of (value_mm * fraction))))))))
      | _ \<Rightarrow> rain_loop window_start window_end entries total_mm)"

text \<open>
  \<open>compute_72h_rain_mm\<close> with the reference time as an argument (the source reads the
  clock in its first statement, which gives an aware \<open>datetime\<close> in UTC), and as the source
  has it, reading the clock of the world.
  \<open>window_start + timedelta(hours=72)\<close> may raise as well.
\<close>

definition compute_72h_rain_mm_at :: "datetime \<Rightarrow> forecast \<Rightarrow> py_error + rat" where
  "compute_72h_rain_mm_at now fc =
     (let window_start = now in
      bind_err (dt_add window_start (72 * us_per_hour)) (\<lambda>window_end.
        rain_loop window_start window_end (qpf fc) 0))"





section \<open>Classification of all gauges (src/core/risk\_logic.py)\<close>

text \<open>
  The dict comprehension \<open>flood_stage_lookup\<close>: items without an \<open>id\<close> key are left out, a
  later item replaces an earlier one with the same key, and the stored value may be \<open>None\<close>.
\<close>

definition flood_stage_lookup_of :: "gauge_item list \<Rightarrow> (string \<rightharpoonup> rat option)" where
  "flood_stage_lookup_of gauges =
     foldl (\<lambda>d item. if cfg_id item \<noteq> Absent
                      then d(str_id (cfg_id item) \<mapsto> cfg_flood_stage_ft item) else d)
           Map.empty gauges"

text \<open>\<open>d.get(k)\<close> where the stored value itself may be \<open>None\<close>.\<close>

definition get_or_none :: "('k \<rightharpoonup> 'v option) \<Rightarrow> 'k \<Rightarrow> 'v option" where
  "get_or_none d k = (case d k of None \<Rightarrow> None | Some v \<Rightarrow> v)"

text \<open>\<open>obs.get("stage_ft")\<close> and \<open>rainfall_data.get(gauge_id, {}).get("rain_72h_mm")\<close>.\<close>

fun entry_stage_ft :: "usgs_entry \<Rightarrow> rat option" where
  "entry_stage_ft (Observation r) = obs_stage_ft r"
| "entry_stage_ft (UsgsFailed gid msg) = None"

fun entry_rain_mm :: "rain_entry option \<Rightarrow> rat option" where
  "entry_rain_mm None = None"
| "entry_rain_mm (Some (Forecast r)) = Some (rain_72h_mm r)"
| "entry_rain_mm (Some (ForecastFailed gid msg)) = None"

fun classify_all_loop ::
  "(string \<rightharpoonup> rat option) \<Rightarrow> (string, rain_entry) dict \<Rightarrow> (string \<rightharpoonup> bands)
     \<Rightarrow> (string, usgs_entry) dict \<Rightarrow> (string, risk_assessment) dict
     \<Rightarrow> py_error + (string, risk_assessment) dict" where
  "classify_all_loop flood_stage_lookup rainfall_data thresholds [] results = Inr results"
| "classify_all_loop flood_stage_lookup rainfall_data thresholds ((gid, obs) # rest) results =
     (let flood_stage = get_or_none flood_stage_lookup gid;
          rain_mm = entry_rain_mm (map_of rainfall_data gid);
          stage_ft = entry_stage_ft obs
      in bind_err (classify_gauge gid stage_ft flood_stage rain_mm thresholds) (\<lambda>a.
           classify_all_loop flood_stage_lookup rainfall_data thresholds rest
             (AList.update gid a results)))"

text \<open>\<open>classify_all\<close>; \<open>gauge_config.get("gauges", [])\<close> is \<open>None\<close> where the key is missing.\<close>

definition classify_all ::
  "(string, usgs_entry) dict \<Rightarrow> (string, rain_entry) dict \<Rightarrow> gauge_item list option
     \<Rightarrow> (string \<rightharpoonup> bands) \<Rightarrow> py_error + (string, risk_assessment) dict" where
  "classify_all usgs_data rainfall_data gauge_config thresholds =
     (let flood_stage_lookup =
            flood_stage_lookup_of (case gauge_config of None \<Rightarrow> [] | Some gs \<Rightarrow> gs)
      in classify_all_loop flood_stage_lookup rainfall_data thresholds usgs_data [])"

section \<open>Notions used in the statements\<close>

text \<open>
  The severity ordering of the specification: \<open>UNKNOWN < LOW < MEDIUM < HIGH\<close>.
\<close>

fun severity :: "risk \<Rightarrow> nat" where
  "severity UNKNOWN = 0"
| "severity LOW = 1"
| "severity MEDIUM = 2"
| "severity HIGH = 3"

text \<open>The thresholds of the fixture of tests/test\_risk\_logic.py.\<close>

definition test_rain_bands :: bands where
  "test_rain_bands = [''low'' \<mapsto> 0, ''medium'' \<mapsto> 50, ''high'' \<mapsto> 150]"

definition test_stage_bands :: bands where
  "test_stage_bands = [''low'' \<mapsto> 7 / 10, ''medium'' \<mapsto> 9 / 10, ''high'' \<mapsto> 1]"

definition test_thresholds :: "string \<rightharpoonup> bands" where
  "test_thresholds =
     [''rainfall_mm_72h'' \<mapsto> test_rain_bands, ''river_stage_ratio'' \<mapsto> test_stage_bands]"

text \<open>
  The rainfall accumulator in the words of the specification. \<open>window_overlap_us\<close> is the
  length of the intersection of a period with the window \<open>[now, now + 72h)\<close> (not positive
  where they do not meet). A period is \<open>counted\<close> when it has all its fields, a positive
  duration and a positive overlap; \<open>prorated\<close> is what a counted period adds to the total,
  \<open>value_mm \<times> (overlap_hours / period_duration_hours)\<close> in float arithmetic; and
  \<open>float_sum\<close> adds the contributions in list order, in float arithmetic, from \<open>0.0\<close>.
\<close>

definition window_overlap_us :: "datetime \<Rightarrow> datetime \<Rightarrow> timedelta \<Rightarrow> int" where
  "window_overlap_us now start duration =
     min (utc_instant start + duration) (utc_instant now + 72 * us_per_hour)
       - max (utc_instant start) (utc_instant now)"

definition counted :: "datetime \<Rightarrow> qpf_entry \<Rightarrow> bool" where
  "counted now e =
     (case (qe_start e, qe_duration e, qe_value_mm e) of
        (Some s, Some d, Some v) \<Rightarrow> 0 < d \<and> 0 < window_overlap_us now s d
      | _ \<Rightarrow> False)"

definition prorated :: "datetime \<Rightarrow> qpf_entry \<Rightarrow> rat" where
  "prorated now e =
     (case (qe_start e, qe_duration e, qe_value_mm e) of
        (Some s, Some d, Some v) \<Rightarrow>
          float_of (v * float_of (total_hours (window_overlap_us now s d) / total_hours d))
      | _ \<Rightarrow> 0)"

definition float_sum :: "rat list \<Rightarrow> rat" where
  "float_sum cs = foldl (\<lambda>acc c. float_of (acc + c)) 0 cs"

text \<open>
  A period whose end, \<open>start + duration\<close>, is a \<open>datetime\<close> (no later than the year 9999),
  and a reference time for which the end of the window is one.
\<close>

definition end_representable :: "qpf_entry \<Rightarrow> bool" where
  "end_representable e =
     (case (qe_start e, qe_duration e, qe_value_mm e) of
        (Some s, Some d, Some v) \<Rightarrow> 0 \<le> wall_us s + d \<and> wall_us s + d \<le> max_wall_us
      | _ \<Rightarrow> True)"

definition window_representable :: "datetime \<Rightarrow> bool" where
  "window_representable now =
     (0 \<le> wall_us now + 72 * us_per_hour \<and> wall_us now + 72 * us_per_hour \<le> max_wall_us)"

text \<open>
  The inputs on which the float arithmetic of the model is that of the machine.
  \<open>float_of\<close> leaves the exponent unbounded, and binary64 agrees with it as long as no
  result overflows or falls below the normal range. A \<open>plain_float\<close> is a float that is
  zero or of a magnitude between \<open>2^-900\<close> and \<open>2^1000\<close>; a \<open>timedelta\<close> holds from
  -999999999 days to just under 1000000000 days. In a forecast of at most \<open>2^20\<close> periods
  with such durations and values every fraction \<open>overlap_hours / interval_hours\<close> is at
  least \<open>2^-67\<close>, every product \<open>value_mm * fraction\<close> is zero or at least \<open>2^-968\<close> in
  magnitude, and every partial sum is below \<open>2^1021\<close>.
\<close>

definition plain_float :: "rat \<Rightarrow> bool" where
  "plain_float v = (float_of v = v \<and> (v = 0 \<or> (1 / 2 ^ 900 \<le> \<bar>v\<bar> \<and> \<bar>v\<bar> \<le> 2 ^ 1000)))"

definition timedelta_range :: "timedelta \<Rightarrow> bool" where
  "timedelta_range d = (- 999999999 * us_per_day \<le> d \<and> d < 1000000000 * us_per_day)"

definition within_float_range :: "forecast \<Rightarrow> bool" where
  "within_float_range fc =
     (length (qpf fc) \<le> 2 ^ 20 \<and>
      list_all (\<lambda>e. (case qe_duration e of None \<Rightarrow> True | Some d \<Rightarrow> timedelta_range d) \<and>
                    (case qe_value_mm e of None \<Rightarrow> True | Some v \<Rightarrow> plain_float v))
        (qpf fc))"

text \<open>A forecast none of whose periods has a negative value.\<close>

definition nonneg_values :: "forecast \<Rightarrow> bool" where
  "nonneg_values fc =
     list_all (\<lambda>e. case qe_value_mm e of None \<Rightarrow> True | Some v \<Rightarrow> 0 \<le> v) (qpf fc)"


text \<open>A forecast period with all three fields present.\<close>

definition period :: "datetime \<Rightarrow> timedelta \<Rightarrow> rat \<Rightarrow> qpf_entry" where
  "period s d v = \<lparr> qe_start = Some s, qe_duration = Some d, qe_value_mm = Some v \<rparr>"

text \<open>A forecast followed by one more period.\<close>

definition with_period :: "forecast \<Rightarrow> qpf_entry \<Rightarrow> forecast" where
  "with_period fc e = fc \<lparr> qpf := qpf fc @ [e] \<rparr>"

text \<open>
  Example times, in UTC: 2024-02-10T00:00:00 (the day of ordinal 738926) and
  9999-12-31T00:00:00 (the last day a \<open>datetime\<close> can hold).
\<close>

definition utc :: "int \<Rightarrow> datetime" where
  "utc w = \<lparr> wall_us = w, utcoffset_us = Some 0 \<rparr>"

definition feb10 :: datetime where
  "feb10 = utc (738925 * us_per_day)"

definition dec31_9999 :: datetime where
  "dec31_9999 = utc (3652058 * us_per_day)"

text \<open>
  Example forecasts, for the reference time \<open>feb10\<close>: one period inside the window with a
  negative value; four periods (inside, half inside, outside, of zero duration); and one
  period of 48 hours that starts on the last day of the year 9999.
\<close>

definition rain_cx :: forecast where
  "rain_cx = \<lparr> qpf = [period feb10 us_per_hour (- 5)], pop = [],
               fc_raw = \<lparr> qpf_values = [], pop_values = [] \<rparr> \<rparr>"

definition rain_ex :: forecast where
  "rain_ex = \<lparr> qpf = [period feb10 us_per_hour 4,
                      period (utc (738925 * us_per_day - us_per_hour)) (2 * us_per_hour) 6,
                      period (utc (738925 * us_per_day + 100 * us_per_hour)) us_per_hour 9,
                      period feb10 0 3],
               pop = [], fc_raw = \<lparr> qpf_values = [], pop_values = [] \<rparr> \<rparr>"

definition rain_far :: forecast where
  "rain_far = \<lparr> qpf = [period dec31_9999 (48 * us_per_hour) 4], pop = [],
                fc_raw = \<lparr> qpf_values = [], pop_values = [] \<rparr> \<rparr>"

text \<open>An outside world in which every request fails and the clock reads \<open>feb10\<close>.\<close>

definition offline_services :: "unit services" where
  "offline_services =
     \<lparr> usgs_iv = (\<lambda>gid w. (Inl (RequestException ''connection refused''), w)),
       nws_points = (\<lambda>lat lon w. (Inl (RequestException ''connection refused''), w)),
       nws_gridpoint = (\<lambda>url w. (Inl (RequestException ''connection refused''), w)),
       utc_now = (\<lambda>w. (feb10, w)) \<rparr>"

text \<open>
  Library functions tabulated on the strings of the examples. The float nearest to
  \<open>0.0000000001\<close> is \<open>7737125245533627 / 2^86\<close>.
\<close>

definition example_float :: "string \<Rightarrow> pyfloat option" where
  "example_float s =
     (if s = ''6'' then Some (Finite 6)
      else if s = ''30'' then Some (Finite 30)
      else if s = ''48'' then Some (Finite 48)
      else if s = ''24000000000'' then Some (Finite 24000000000)
      else if s = ''0.0000000001'' then Some (Finite (7737125245533627 / 2 ^ 86))
      else None)"

definition example_fromisoformat :: "string \<Rightarrow> datetime option" where
  "example_fromisoformat s =
     (if s = ''2024-02-10T00:00:00+00:00'' then Some feb10
      else if s = ''9999-12-31T00:00:00+00:00'' then Some dec31_9999
      else None)"

definition example_builtins :: builtins where
  "example_builtins =
     \<lparr> py_float = example_float, fromisoformat = example_fromisoformat,
       str_float = (\<lambda>x. ''?'') \<rparr>"

text \<open>
  What the loop of \<open>fetch_usgs_gauge_data\<close> reads from one block of \<open>timeSeries\<close>:
  \<open>last_sample\<close> is \<open>entries[-1]\<close> of the first element of \<open>values\<close> (where both lists
  are non-empty) and \<open>reading\<close> its numeric value. \<open>retained code\<close> is the reading of the
  last block, in array order, that carries the parameter code and has a reading.
\<close>

definition last_sample :: "series \<Rightarrow> sample option" where
  "last_sample s =
     (case values_blocks s of
        [] \<Rightarrow> None
      | entries # _ \<Rightarrow> if entries = [] then None else Some (last entries))"

definition reading :: "series \<Rightarrow> rat option" where
  "reading s = (case last_sample s of None \<Rightarrow> None | Some e \<Rightarrow> sample_value e)"

definition retained :: "string \<Rightarrow> series list \<Rightarrow> rat option" where
  "retained code time_series =
     (let usable = filter (\<lambda>s. param_code_of s = Some code \<and> reading s \<noteq> None) time_series
      in if usable = [] then None else reading (last usable))"

text \<open>
  The chronologically latest of a list of samples: the one with the greatest timestamp
  (the later in the list among equals), samples without a timestamp left aside.
\<close>

fun chronologically_latest :: "sample list \<Rightarrow> sample option" where
  "chronologically_latest [] = None"
| "chronologically_latest (x # xs) =
     (case chronologically_latest xs of
        None \<Rightarrow> (if dateTime x = None then None else Some x)
      | Some y \<Rightarrow>
          (case (dateTime x, dateTime y) of
             (Some tx, Some ty) \<Rightarrow> if ty < tx then Some x else Some y
           | _ \<Rightarrow> Some y))"

text \<open>Samples that all carry a timestamp, in strictly ascending order of time.\<close>

definition earlier :: "sample \<Rightarrow> sample \<Rightarrow> bool" where
  "earlier a b = (case (dateTime a, dateTime b) of (Some x, Some y) \<Rightarrow> x < y | _ \<Rightarrow> False)"

definition ascending :: "sample list \<Rightarrow> bool" where
  "ascending es = (list_all (\<lambda>e. dateTime e \<noteq> None) es \<and> sorted_wrt earlier es)"

text \<open>A response whose two stage samples are not in order of time, and one in order.\<close>

definition unordered_samples :: "sample list" where
  "unordered_samples =
     [\<lparr> sample_value = Some 9, dateTime = Some 200 \<rparr>,
      \<lparr> sample_value = Some 8, dateTime = Some 100 \<rparr>]"

definition unordered_payload :: usgs_payload where
  "unordered_payload =
     [\<lparr> variableCode = [Some ''00065''], values_blocks = [unordered_samples] \<rparr>]"

definition ordered_samples :: "sample list" where
  "ordered_samples =
     [\<lparr> sample_value = Some 8, dateTime = Some 100 \<rparr>,
      \<lparr> sample_value = Some (17 / 2), dateTime = Some 200 \<rparr>]"

definition ordered_payload :: usgs_payload where
  "ordered_payload =
     [\<lparr> variableCode = [Some ''00065''], values_blocks = [ordered_samples] \<rparr>,
      \<lparr> variableCode = [Some ''00060''],
        values_blocks = [[\<lparr> sample_value = Some 15000, dateTime = Some 200 \<rparr>]] \<rparr>]"

text \<open>An outside world whose USGS service answers every request with \<open>ordered_payload\<close>.\<close>

definition example_services :: "unit services" where
  "example_services = offline_services \<lparr> usgs_iv := (\<lambda>gid w. (Inr ordered_payload, w)) \<rparr>"










text \<open>Example gauges: two complete ones, one without coordinates.\<close>

definition gauge_a :: gauge_item where
  "gauge_a = \<lparr> cfg_id = Scalar ''11425500'', cfg_latitude = Some (77 / 2),
               cfg_longitude = Some (- 243 / 2), cfg_flood_stage_ft = Some 30 \<rparr>"

definition gauge_b :: gauge_item where
  "gauge_b = \<lparr> cfg_id = Scalar ''11447650'', cfg_latitude = Some 38,
               cfg_longitude = Some (- 121), cfg_flood_stage_ft = None \<rparr>"





text \<open>
  Thresholds with every key that \<open>classify_gauge\<close> and the two sub-classifications can
  read.
\<close>

definition has_required_keys :: "(string \<rightharpoonup> bands) \<Rightarrow> bool" where
  "has_required_keys thresholds =
     (case (thresholds ''rainfall_mm_72h'', thresholds ''river_stage_ratio'') of
        (Some rain_bands, Some stage_bands) \<Rightarrow>
          list_all (\<lambda>k. rain_bands k \<noteq> None \<and> stage_bands k \<noteq> None)
            [''low'', ''medium'', ''high'']
      | _ \<Rightarrow> False)"

text \<open>
  Example inputs of \<open>classify_all\<close>: the key \<open>99\<close> of the stage data is in neither the
  configuration nor the rainfall data; the gauge \<open>11447650\<close> is in both of these but not in
  the stage data.
\<close>

definition example_usgs_data :: "(string, usgs_entry) dict" where
  "example_usgs_data =
     [(''11425500'', Observation \<lparr> obs_gauge_id = ''11425500'', obs_timestamp = Some 200,
                                    obs_stage_ft = Some (17 / 2),
                                    obs_discharge_cfs = Some 15000, obs_raw = [] \<rparr>),
      (''99'', UsgsFailed ''99'' ''read timed out'')]"

definition example_rainfall_data :: "(string, rain_entry) dict" where
  "example_rainfall_data =
     [(''11425500'', Forecast \<lparr> rr_gauge_id = ''11425500'', rr_lat = 77 / 2,
                                 rr_lon = - 243 / 2, rain_72h_mm = 60,
                                 rr_raw = \<lparr> qpf_values = [], pop_values = [] \<rparr> \<rparr>),
      (''11447650'', ForecastFailed ''11447650'' ''connection refused'')]"

definition example_results :: "(string, risk_assessment) dict" where
  "example_results =
     [(''11425500'', \<lparr> gauge_id = ''11425500'', risk = MEDIUM, rain_risk = MEDIUM,
                       stage_risk = LOW, stage_ratio = Some (17 / 60),
                       inputs = \<lparr> in_stage_ft = Some (17 / 2), in_flood_stage_ft = Some 30,
                                  in_rain_mm_72h = Some 60 \<rparr> \<rparr>),
      (''99'', \<lparr> gauge_id = ''99'', risk = UNKNOWN, rain_risk = UNKNOWN,
                stage_risk = UNKNOWN, stage_ratio = None,
                inputs = \<lparr> in_stage_ft = None, in_flood_stage_ft = None,
                           in_rain_mm_72h = None \<rparr> \<rparr>)]"

section \<open>Float rounding, datetimes and timedeltas: basic facts\<close>

lemma round_half_even_of_int: "round_half_even (of_int k) = k"
  by (simp add: round_half_even_def)

lemma round_half_even_near:
  assumes "\<bar>x - of_int k\<bar> < 1 / 2"
  shows "round_half_even x = k"
proof (cases "of_int k \<le> x")
  case True
  have "\<lfloor>x\<rfloor> = k"
  proof (rule floor_unique)
    show "of_int k \<le> x" by (rule True)
    show "x < of_int k + 1" using assms by linarith
  qed
  moreover have "x - of_int k < 1 / 2" using assms by linarith
  ultimately show ?thesis by (simp add: round_half_even_def Let_def)
next
  case False
  have f: "\<lfloor>x\<rfloor> = k - 1"
  proof (rule floor_unique)
    have "x - of_int k > - (1 / 2)" using assms by linarith
    then show "of_int (k - 1) \<le> x" by simp
    show "x < of_int (k - 1) + 1" using False by simp
  qed
  have "x - of_int (k - 1) = x - of_int k + 1" by simp
  moreover have "x - of_int k > - (1 / 2)" using assms by linarith
  ultimately have "x - of_int (k - 1) > 1 / 2" by linarith
  then show ?thesis
    unfolding round_half_even_def Let_def f by simp
qed

lemma round_half_even_error: "\<bar>of_int (round_half_even x) - x\<bar> \<le> 1 / 2"
proof -
  define f where "f = \<lfloor>x\<rfloor>"
  have b: "of_int f \<le> x" "x < of_int f + 1" unfolding f_def by linarith+
  consider "x - of_int f < 1 / 2" | "x - of_int f > 1 / 2" | "x - of_int f = 1 / 2"
    by linarith
  then show ?thesis
  proof cases
    case 1
    then have "round_half_even x = f" by (simp add: round_half_even_def Let_def f_def)
    with 1 b show ?thesis by simp
  next
    case 2
    then have "round_half_even x = f + 1" by (simp add: round_half_even_def Let_def f_def)
    with 2 b show ?thesis by simp
  next
    case 3
    then have "round_half_even x = f \<or> round_half_even x = f + 1"
      by (simp add: round_half_even_def Let_def f_def)
    with 3 show ?thesis by auto
  qed
qed

lemma round_half_even_ge: "of_int k \<le> x \<Longrightarrow> k \<le> round_half_even x"
proof -
  assume "of_int k \<le> x"
  then have "k \<le> \<lfloor>x\<rfloor>" by (simp add: le_floor_iff)
  then show ?thesis by (auto simp: round_half_even_def Let_def)
qed

lemma ilog2_bounds:
  assumes "0 < y"
  shows "2 powi ilog2 y \<le> y" and "y < 2 powi (ilog2 y + 1)"
proof -
  have "2 powi ilog2 y \<le> y \<and> y < 2 powi (ilog2 y + 1)"
  proof (cases "1 \<le> y")
    case True
    define m where "m = \<lfloor>y\<rfloor>"
    define j where "j = nat (bitlen m - 1)"
    have m: "0 < m" using True by (simp add: m_def)
    have my: "of_int m \<le> y" "y < of_int m + 1" by (simp_all add: m_def) linarith
    have j1: "1 \<le> bitlen m" using m by (auto simp: bitlen_alt_def)
    have jj: "nat (bitlen m) = Suc j" "bitlen m - 1 = int j" using j1 by (simp_all add: j_def)
    from bitlen_bounds [OF m] have "2 ^ j \<le> m \<and> m < 2 ^ Suc j"
      unfolding j_def [symmetric] jj(1) .
    then have b: "2 ^ j \<le> m" "m + 1 \<le> 2 ^ Suc j" by simp_all
    have i: "ilog2 y = int j" using True jj by (simp add: ilog2_def m_def)
    have "(of_int (2 ^ j) :: rat) \<le> of_int m" using b(1) by (simp only: of_int_le_iff)
    then have p: "(2 :: rat) ^ j \<le> of_int m" by simp
    have 1: "2 powi ilog2 y \<le> y"
      unfolding i power_int_of_nat using p my(1) by (rule order_trans)
    have "(of_int (m + 1) :: rat) \<le> of_int (2 ^ Suc j)" using b(2) by (simp only: of_int_le_iff)
    then have q: "of_int m + 1 \<le> (2 :: rat) ^ Suc j" by simp
    have e: "ilog2 y + 1 = int (Suc j)" using i by simp
    have 2: "y < 2 powi (ilog2 y + 1)"
      unfolding e power_int_of_nat using my(2) q by (rule less_le_trans)
    from 1 2 show ?thesis by simp
  next
    case False
    define z where "z = 1 / y"
    define c where "c = \<lceil>z\<rceil>"
    define n where "n = c - 1"
    define j where "j = nat (bitlen n - 1)"
    have z: "1 < z" using assms False by (simp add: z_def)
    have c: "z \<le> of_int c" "of_int c - 1 < z" by (simp_all add: c_def) linarith
    have c2: "2 \<le> c" using z c(1) by linarith
    have n: "0 < n" "of_int n = (of_int c - 1 :: rat)" using c2 by (simp_all add: n_def)
    have j1: "1 \<le> bitlen n" using n(1) by (auto simp: bitlen_alt_def)
    have jj: "nat (bitlen n) = Suc j" "bitlen n = int (Suc j)" using j1 by (simp_all add: j_def)
    from bitlen_bounds [OF n(1)] have "2 ^ j \<le> n \<and> n < 2 ^ Suc j"
      unfolding j_def [symmetric] jj(1) .
    then have b: "2 ^ j \<le> n" "n + 1 \<le> 2 ^ Suc j" by simp_all
    have i: "ilog2 y = - int (Suc j)"
      using False jj(2) by (simp add: ilog2_def n_def c_def z_def)
    have "(of_int (n + 1) :: rat) \<le> of_int (2 ^ Suc j)" using b(2) by (simp only: of_int_le_iff)
    then have "of_int n + 1 \<le> (2 :: rat) ^ Suc j" by simp
    then have "z \<le> 2 ^ Suc j" using c(1) n(2) by linarith
    then have "1 / 2 ^ Suc j \<le> y"
      using assms by (simp add: z_def field_simps)
    then have 1: "2 powi ilog2 y \<le> y"
      unfolding i power_int_minus_divide power_int_of_nat .
    have "(of_int (2 ^ j) :: rat) \<le> of_int n" using b(1) by (simp only: of_int_le_iff)
    then have "(2 :: rat) ^ j \<le> of_int n" by simp
    then have "2 ^ j < z" using c(2) n(2) by linarith
    then have "y < 1 / 2 ^ j"
      using assms by (simp add: z_def field_simps)
    moreover have "ilog2 y + 1 = - int j" using i by simp
    ultimately have 2: "y < 2 powi (ilog2 y + 1)"
      by (simp only: power_int_minus_divide power_int_of_nat)
    from 1 2 show ?thesis by simp
  qed
  then show "2 powi ilog2 y \<le> y" and "y < 2 powi (ilog2 y + 1)" by simp_all
qed

lemma ilog2_unique:
  assumes "2 powi k \<le> y" and "y < 2 powi (k + 1)"
  shows "ilog2 y = k"
proof -
  have "(0 :: rat) < 2 powi k" by simp
  then have y: "0 < y" using assms(1) by (rule less_le_trans)
  note b = ilog2_bounds [OF y]
  have "\<not> ilog2 y < k"
  proof
    assume "ilog2 y < k"
    then have "ilog2 y + 1 \<le> k" by simp
    then have "(2 :: rat) powi (ilog2 y + 1) \<le> 2 powi k" by (intro power_int_increasing) simp_all
    with b(2) assms(1) show False by linarith
  qed
  moreover have "\<not> k < ilog2 y"
  proof
    assume "k < ilog2 y"
    then have "k + 1 \<le> ilog2 y" by simp
    then have "(2 :: rat) powi (k + 1) \<le> 2 powi ilog2 y" by (intro power_int_increasing) simp_all
    with b(1) assms(2) show False by linarith
  qed
  ultimately show ?thesis by linarith
qed

lemma float_of_zero: "float_of 0 = 0"
  by (simp add: float_of_def)

lemma float_of_eq:
  assumes "2 powi k \<le> \<bar>x\<bar>" and "\<bar>x\<bar> < 2 powi (k + 1)"
  shows "float_of x = of_int (round_half_even (x / 2 powi (k - 52))) * 2 powi (k - 52)"
proof -
  have "(0 :: rat) < 2 powi k" by simp
  then have "0 < \<bar>x\<bar>" using assms(1) by (rule less_le_trans)
  then have "x \<noteq> 0" by simp
  moreover have "ilog2 \<bar>x\<bar> = k" using assms by (rule ilog2_unique)
  ultimately show ?thesis by (simp add: float_of_def Let_def)
qed

lemma float_of_representable:
  assumes "x = of_int m * 2 powi e" and "\<bar>m\<bar> < 2 ^ 53"
  shows "float_of x = x"
proof (cases "m = 0")
  case True
  with assms show ?thesis by (simp add: float_of_zero)
next
  case False
  define k where "k = ilog2 \<bar>x\<bar>"
  have p: "(0 :: rat) < 2 powi e" by simp
  have ax: "\<bar>x\<bar> = of_int \<bar>m\<bar> * 2 powi e"
    using p by (simp add: assms(1) abs_mult)
  then have x0: "0 < \<bar>x\<bar>" using False p by simp
  note b = ilog2_bounds [OF x0, folded k_def]
  have le: "k - 52 \<le> e"
  proof (rule ccontr)
    assume "\<not> k - 52 \<le> e"
    then have "e + 53 \<le> k" by simp
    then have "(2 :: rat) powi (e + 53) \<le> 2 powi k"
      by (intro power_int_increasing) simp_all
    moreover have "(2 :: rat) powi (e + 53) = 2 ^ 53 * 2 powi e"
      by (simp add: power_int_add)
    moreover have "of_int \<bar>m\<bar> < (2 :: rat) ^ 53"
      using assms(2) by (metis of_int_less_iff of_int_numeral of_int_power)
    then have "of_int \<bar>m\<bar> * 2 powi e < (2 :: rat) ^ 53 * 2 powi e"
      using p by simp
    ultimately show False using b(1) ax by linarith
  qed
  define d where "d = nat (e - (k - 52))"
  have e: "e = (k - 52) + int d" using le by (simp add: d_def)
  have "x = of_int m * (2 powi (k - 52) * 2 ^ d)"
    unfolding assms(1) by (subst e) (simp add: power_int_add)
  then have x: "x = of_int (m * 2 ^ d) * 2 powi (k - 52)" by simp
  have "x / 2 powi (k - 52) = of_int (m * 2 ^ d)"
    by (subst x) simp
  then have "round_half_even (x / 2 powi (k - 52)) = m * 2 ^ d"
    by (simp only: round_half_even_of_int)
  then have "float_of x = of_int (m * 2 ^ d) * 2 powi (k - 52)"
    using float_of_eq [OF b] by simp
  with x show ?thesis by simp
qed

lemma float_of_int: "\<bar>m\<bar> < 2 ^ 53 \<Longrightarrow> float_of (of_int m) = of_int m"
  using float_of_representable [of "of_int m" m 0] by simp

lemma float_of_times2: "float_of (2 * x) = 2 * float_of x"
proof (cases "x = 0")
  case True
  then show ?thesis by (simp add: float_of_zero)
next
  case False
  define k where "k = ilog2 \<bar>x\<bar>"
  have x0: "0 < \<bar>x\<bar>" using False by simp
  note b = ilog2_bounds [OF x0, folded k_def]
  have "2 powi (k + 1) \<le> \<bar>2 * x\<bar>" "\<bar>2 * x\<bar> < 2 powi (k + 1 + 1)"
    using b by (simp_all add: power_int_add abs_mult)
  note f2 = float_of_eq [OF this]
  define s :: rat where "s = 2 powi (k - 52)"
  have s: "0 < s" by (simp add: s_def)
  have "(2 :: rat) powi ((k - 52) + 1) = 2 powi (k - 52) * 2"
    by (subst power_int_add) simp_all
  moreover have "k + 1 - 52 = (k - 52) + 1" by simp
  ultimately have t: "(2 :: rat) powi (k + 1 - 52) = 2 * s"
    by (simp only: s_def mult.commute)
  have q: "2 * x / (2 * s) = x / s" by simp
  have "float_of (2 * x) = of_int (round_half_even (x / s)) * (2 * s)"
    using f2 unfolding t q .
  moreover have "float_of x = of_int (round_half_even (x / s)) * s"
    using float_of_eq [OF b] by (simp add: s_def)
  ultimately show ?thesis by simp
qed

lemma float_of_half: "float_of (x / 2) = float_of x / 2"
  using float_of_times2 [of "x / 2"] by simp

lemma float_of_pos:
  assumes "0 < x"
  shows "0 < float_of x"
proof -
  define k where "k = ilog2 \<bar>x\<bar>"
  have x0: "0 < \<bar>x\<bar>" using assms by simp
  note b = ilog2_bounds [OF x0, folded k_def]
  have "2 powi k = (2 :: rat) ^ 52 * 2 powi (k - 52)"
    by (simp add: power_int_diff)
  with b(1) assms have "(2 :: rat) ^ 52 * 2 powi (k - 52) \<le> x" by simp
  then have "(2 :: rat) ^ 52 \<le> x / 2 powi (k - 52)"
    by (simp add: field_simps)
  then have "of_int (2 ^ 52) \<le> x / 2 powi (k - 52)" by simp
  then have "2 ^ 52 \<le> round_half_even (x / 2 powi (k - 52))"
    by (rule round_half_even_ge)
  moreover have "(0 :: int) < 2 ^ 52" by simp
  ultimately have "0 < round_half_even (x / 2 powi (k - 52))" by (rule less_le_trans [rotated])
  then show ?thesis using float_of_eq [OF b] by simp
qed

lemma float_of_nonneg: "0 \<le> x \<Longrightarrow> 0 \<le> float_of x"
  using float_of_pos [of x] by (cases "x = 0") (simp_all add: float_of_zero less_imp_le)

lemma float_of_error: "\<bar>float_of x - x\<bar> \<le> \<bar>x\<bar> / 2 ^ 53"
proof (cases "x = 0")
  case True
  then show ?thesis by (simp add: float_of_zero)
next
  case False
  define k where "k = ilog2 \<bar>x\<bar>"
  define s :: rat where "s = 2 powi (k - 52)"
  define r where "r = round_half_even (x / s)"
  have x0: "0 < \<bar>x\<bar>" using False by simp
  note b = ilog2_bounds [OF x0, folded k_def]
  have s: "0 < s" by (simp add: s_def)
  have f: "float_of x = of_int r * s" using float_of_eq [OF b] by (simp add: r_def s_def)
  have "float_of x - x = (of_int r - x / s) * s" using s by (simp add: f field_simps)
  then have "\<bar>float_of x - x\<bar> = \<bar>of_int r - x / s\<bar> * s" using s by (simp add: abs_mult)
  also have "\<dots> \<le> 1 / 2 * s"
    using round_half_even_error [of "x / s"] s unfolding r_def
    by (intro mult_right_mono) simp_all
  also have "\<dots> = 2 powi k / 2 ^ 53" by (simp add: s_def power_int_diff)
  also have "\<dots> \<le> \<bar>x\<bar> / 2 ^ 53" using b(1) by (simp add: divide_right_mono)
  finally show ?thesis .
qed

section \<open>Risk classification: properties\<close>

lemma rank_values:
  "rank LOW = 0" "rank MEDIUM = 1" "rank HIGH = 2" "rank UNKNOWN = - 1"
  by (simp_all add: rank_def risk_order_def)

lemma max_by_rank_severity:
  "max_by_key rank a b = (if severity a < severity b then b else a)"
  by (cases a; cases b; simp add: max_by_key_def rank_values)

lemma severity_zero_iff: "severity r = 0 \<longleftrightarrow> r = UNKNOWN"
  by (cases r) simp_all

lemma classify_gauge_fields:
  assumes "classify_gauge gid st fl rn thr = Inr a"
  shows "risk a = max_by_key rank (rain_risk a) (stage_risk a)"
  using assms
  by (auto simp: classify_gauge_def bind_err_def split: sum.splits)

text \<open>
  Claim C1. Whenever \<open>classify_gauge\<close> returns, the \<open>risk\<close> field is one of the two
  sub-risks, namely the more severe one under \<open>UNKNOWN < LOW < MEDIUM < HIGH\<close>; so an
  \<open>UNKNOWN\<close> sub-risk never overrides a known one, and the overall risk is \<open>UNKNOWN\<close>
  exactly when both sub-risks are.
\<close>

theorem overall_risk_is_more_severe:
  assumes "classify_gauge gid stage_ft flood_stage_ft rain_mm thresholds = Inr a"
  shows "(risk a = rain_risk a \<or> risk a = stage_risk a)
       \<and> severity (risk a) = max (severity (rain_risk a)) (severity (stage_risk a))
       \<and> (risk a = UNKNOWN \<longleftrightarrow> rain_risk a = UNKNOWN \<and> stage_risk a = UNKNOWN)"
proof -
  have r: "risk a = (if severity (rain_risk a) < severity (stage_risk a)
                     then stage_risk a else rain_risk a)"
    using classify_gauge_fields [OF assms] by (simp add: max_by_rank_severity)
  have u: "risk a = UNKNOWN \<longleftrightarrow> rain_risk a = UNKNOWN \<and> stage_risk a = UNKNOWN"
    using r by (cases "rain_risk a"; cases "stage_risk a"; simp)
  show ?thesis using r u by (simp add: max_def)
qed

lemma test_high_by_rain:
  "classify_gauge ''123'' (Some 5) (Some 20) (Some 200) test_thresholds =
     Inr \<lparr> gauge_id = ''123'', risk = HIGH, rain_risk = HIGH, stage_risk = LOW,
           stage_ratio = Some (1 / 4),
           inputs = \<lparr> in_stage_ft = Some 5, in_flood_stage_ft = Some 20,
                      in_rain_mm_72h = Some 200 \<rparr> \<rparr>"
  by (simp add: classify_gauge_def bind_err_def getitem_def test_thresholds_def
      test_rain_bands_def test_stage_bands_def risk_from_rain_def risk_from_stage_def
      max_by_key_def rank_values stage_ratio_of_def)

theorem overall_risk_is_more_severe_witness:
  "classify_gauge ''123'' (Some 5) (Some 20) (Some 200) test_thresholds =
     Inr \<lparr> gauge_id = ''123'', risk = HIGH, rain_risk = HIGH, stage_risk = LOW,
           stage_ratio = Some (1 / 4),
           inputs = \<lparr> in_stage_ft = Some 5, in_flood_stage_ft = Some 20,
                      in_rain_mm_72h = Some 200 \<rparr> \<rparr>
   \<and> severity HIGH = max (severity HIGH) (severity LOW)"
  using overall_risk_is_more_severe [OF test_high_by_rain] test_high_by_rain by simp

text \<open>
  Claim C2. For \<open>stage_ft = 10\<close>, \<open>flood_stage_ft = 10\<close> and the stage bands
  \<open>{low: 0.7, medium: 0.9, high: 1.0}\<close> the claim (and \<open>test_risk_high_by_stage\<close>) expect
  \<open>HIGH\<close>. The code computes the ratio \<open>1\<close>, which is neither \<open>\<le> 0.9\<close> nor \<open>> 1.0\<close>, and
  returns \<open>MEDIUM\<close>, for the stage risk and for the overall risk of the test's input.
\<close>

theorem stage_at_flood_stage_is_medium:
  "risk_from_stage (Some 10) (Some 10) test_stage_bands = Inr MEDIUM
   \<and> map_sum id stage_risk (classify_gauge ''123'' (Some 10) (Some 10) (Some 10) test_thresholds)
       = Inr MEDIUM
   \<and> map_sum id risk (classify_gauge ''123'' (Some 10) (Some 10) (Some 10) test_thresholds)
       = Inr MEDIUM"
  by (simp add: classify_gauge_def bind_err_def getitem_def test_thresholds_def
      test_rain_bands_def test_stage_bands_def risk_from_rain_def risk_from_stage_def
      max_by_key_def rank_values stage_ratio_of_def)

text \<open>
  Claim C3. For bands with the three keys and ascending cut points
  (\<open>low \<le> medium \<le> high\<close>, as the thresholds of the specification are): an absent
  \<open>rain_mm\<close> gives \<open>UNKNOWN\<close>; \<open>rain_mm \<le> low\<close> gives \<open>LOW\<close>; \<open>low < rain_mm \<le> medium\<close>
  gives \<open>MEDIUM\<close>; \<open>medium < rain_mm \<le> high\<close> gives \<open>MEDIUM\<close>; and the result is \<open>HIGH\<close>
  if and only if \<open>rain_mm > high\<close>.
\<close>

theorem rain_risk_by_bands:
  assumes "thresholds ''low'' = Some lo"
      and "thresholds ''medium'' = Some me"
      and "thresholds ''high'' = Some hi"
      and "lo \<le> me" and "me \<le> hi"
  shows "risk_from_rain None thresholds = Inr UNKNOWN
       \<and> (r \<le> lo \<longrightarrow> risk_from_rain (Some r) thresholds = Inr LOW)
       \<and> (lo < r \<and> r \<le> me \<longrightarrow> risk_from_rain (Some r) thresholds = Inr MEDIUM)
       \<and> (me < r \<and> r \<le> hi \<longrightarrow> risk_from_rain (Some r) thresholds = Inr MEDIUM)
       \<and> (risk_from_rain (Some r) thresholds = Inr HIGH \<longleftrightarrow> hi < r)"
  using assms by (auto simp: risk_from_rain_def getitem_def bind_err_def)

theorem rain_risk_by_bands_witness:
  "risk_from_rain None test_rain_bands = Inr UNKNOWN
   \<and> risk_from_rain (Some 0) test_rain_bands = Inr LOW
   \<and> risk_from_rain (Some 50) test_rain_bands = Inr MEDIUM
   \<and> risk_from_rain (Some 150) test_rain_bands = Inr MEDIUM
   \<and> risk_from_rain (Some 200) test_rain_bands = Inr HIGH"
proof -
  have k: "test_rain_bands ''low'' = Some 0" "test_rain_bands ''medium'' = Some 50"
    "test_rain_bands ''high'' = Some 150" "(0 :: rat) \<le> 50" "(50 :: rat) \<le> 150"
    by (simp_all add: test_rain_bands_def)
  show ?thesis
    using rain_risk_by_bands [OF k, of 0] rain_risk_by_bands [OF k, of 50]
      rain_risk_by_bands [OF k, of 150] rain_risk_by_bands [OF k, of 200]
    by simp
qed

text \<open>
  Claim C8. If \<open>stage_ft\<close> is absent, \<open>flood_stage_ft\<close> is absent or \<open>flood_stage_ft\<close> is
  zero, \<open>_risk_from_stage\<close> returns \<open>UNKNOWN\<close> and raises nothing, whatever the other
  input and whatever the thresholds dict holds.
\<close>

theorem stage_risk_unknown_without_inputs:
  assumes "stage_ft = None \<or> flood_stage_ft = None \<or> flood_stage_ft = Some 0"
  shows "risk_from_stage stage_ft flood_stage_ft thresholds = Inr UNKNOWN"
  using assms by (auto simp: risk_from_stage_def split: option.splits)

theorem stage_risk_unknown_without_inputs_witness:
  "risk_from_stage None (Some 10) Map.empty = Inr UNKNOWN
   \<and> risk_from_stage (Some 12) None test_stage_bands = Inr UNKNOWN
   \<and> risk_from_stage (Some 12) (Some 0) Map.empty = Inr UNKNOWN"
  using stage_risk_unknown_without_inputs [of None "Some 10" Map.empty]
    stage_risk_unknown_without_inputs [of "Some 12" None test_stage_bands]
    stage_risk_unknown_without_inputs [of "Some 12" "Some 0" Map.empty]
  by simp

section \<open>Validity intervals: properties\<close>

lemma split_on_no_sep: "c \<notin> set s \<Longrightarrow> split_on c s = [s]"
  by (induction s) auto

lemma split_on_one_sep:
  "c \<notin> set a \<Longrightarrow> c \<notin> set b \<Longrightarrow> split_on c (a @ c # b) = [a, b]"
  by (induction a) (auto simp: split_on_no_sep)

lemma startswith_PT: "startswith (''PT'' @ n) ''PT''"
  by (simp add: startswith_def)

lemma endswith_last: "endswith (s @ [c]) [d] \<longleftrightarrow> c = d"
  by (simp add: endswith_def)

lemma slice_PT: "slice_2_to_last (''PT'' @ n @ [c]) = n"
proof -
  have "butlast (''PT'' @ n @ [c]) = ''PT'' @ n"
    using butlast_snoc [of "''PT'' @ n" c] by simp
  then show ?thesis by (simp add: slice_2_to_last_def)
qed

lemma parse_valid_time_PT:
  assumes "CHR ''/'' \<notin> set start_str" and "CHR ''/'' \<notin> set n_str" and "c \<noteq> CHR ''/''"
      and "fromisoformat bi start_str = Some parsed"
      and "py_float bi n_str = Some x"
  defines "dur \<equiv> ''PT'' @ n_str @ [c]"
  shows "parse_valid_time bi (start_str @ CHR ''/'' # dur) =
           bind_err
             (timedelta_hours
                (if c = CHR ''H'' then x else if c = CHR ''M'' then div_60 x else Finite 0))
             (\<lambda>duration. Inr (utc_if_naive parsed, duration))"
proof -
  have "CHR ''/'' \<notin> set dur"
    using assms(2,3) by (simp add: dur_def)
  then have sp: "split_on CHR ''/'' (start_str @ CHR ''/'' # dur) = [start_str, dur]"
    using assms(1) by (rule split_on_one_sep [rotated])
  have st: "startswith dur ''PT''"
    unfolding dur_def by (rule startswith_PT)
  have en: "endswith dur [d] \<longleftrightarrow> c = d" for d
    using endswith_last [of "''PT'' @ n_str" c d] by (simp add: dur_def)
  have sl: "slice_2_to_last dur = n_str"
    unfolding dur_def by (rule slice_PT)
  show ?thesis
    unfolding parse_valid_time_def sp
    by (simp add: st en sl assms(4,5) parse_float_def bind_err_def Let_def)
qed

lemma trunc_near: "\<bar>x - of_int (trunc x)\<bar> < 1"
proof (cases "0 \<le> x")
  case True
  have "of_int \<lfloor>x\<rfloor> \<le> x" "x < of_int \<lfloor>x\<rfloor> + 1" by linarith+
  with True show ?thesis by (simp add: trunc_def)
next
  case False
  have "x \<le> of_int \<lceil>x\<rceil>" "of_int \<lceil>x\<rceil> - 1 < x" by linarith+
  with False show ?thesis by (simp add: trunc_def)
qed

lemma int_near_zero: "\<bar>(of_int j :: rat)\<bar> < 1 \<Longrightarrow> j = 0"
proof -
  assume "\<bar>(of_int j :: rat)\<bar> < 1"
  then have "(of_int \<bar>j\<bar> :: rat) < of_int 1" by simp
  then have "\<bar>j\<bar> < 1" by (simp only: of_int_less_iff)
  then show ?thesis by simp
qed

lemma us_of_hours_near:
  assumes "\<bar>h * of_int us_per_hour - of_int k\<bar> \<le> 2 / 5"
  shows "us_of_hours h = k"
proof -
  define i where "i = trunc h"
  define f where "f = h - of_int i"
  define j where "j = k - i * us_per_hour"
  have f1: "\<bar>f\<bar> < 1" unfolding f_def i_def by (rule trunc_near)
  have y: "of_int us_per_hour * f - of_int j = h * of_int us_per_hour - of_int k"
    by (simp add: f_def j_def algebra_simps)
  show ?thesis
  proof (cases "f = 0")
    case True
    with y have "of_int j = - (h * of_int us_per_hour - of_int k)" by simp
    then have "\<bar>(of_int j :: rat)\<bar> = \<bar>h * of_int us_per_hour - of_int k\<bar>" by simp
    with assms have "\<bar>(of_int j :: rat)\<bar> < 1" by linarith
    then have "j = 0" by (rule int_near_zero)
    then have "k = i * us_per_hour" by (simp add: j_def)
    moreover have "h - of_int (trunc h) = 0" using True by (simp only: f_def i_def)
    ultimately show ?thesis
      by (simp only: us_of_hours_def Let_def i_def [symmetric] refl if_True add_0_right)
  next
    case False
    define p where "p = float_of (of_int us_per_hour * f)"
    have "\<bar>of_int us_per_hour * f\<bar> \<le> 3600000000"
      using f1 by (simp add: abs_mult us_per_hour_def)
    then have "\<bar>of_int us_per_hour * f\<bar> / 2 ^ 53 \<le> 3600000000 / 2 ^ 53"
      by (simp add: divide_right_mono)
    moreover have "\<bar>p - of_int us_per_hour * f\<bar> \<le> \<bar>of_int us_per_hour * f\<bar> / 2 ^ 53"
      unfolding p_def by (rule float_of_error)
    ultimately have "\<bar>p - of_int us_per_hour * f\<bar> \<le> 3600000000 / 2 ^ 53" by linarith
    moreover have "(3600000000 :: rat) / 2 ^ 53 < 1 / 10" by simp
    moreover have "\<bar>of_int us_per_hour * f - of_int j\<bar> \<le> 2 / 5" using y assms by simp
    ultimately have "\<bar>p - of_int j\<bar> < 1 / 2" by linarith
    then have "round_half_even p = j" by (rule round_half_even_near)
    moreover have "h - of_int (trunc h) \<noteq> 0" using False unfolding f_def i_def .
    ultimately have "us_of_hours h = i * us_per_hour + j"
      by (simp only: us_of_hours_def Let_def i_def [symmetric] f_def [symmetric]
          p_def [symmetric] if_False)
    then show ?thesis by (simp add: j_def)
  qed
qed

lemma timedelta_of_us_in_range:
  assumes "\<bar>k\<bar> \<le> 999999999 * us_per_day"
  shows "timedelta_of_us k = Inr k"
proof -
  have p: "0 < us_per_day" by (simp add: us_per_day_def)
  have b: "- 999999999 * us_per_day \<le> k" "k \<le> 999999999 * us_per_day"
    using assms by linarith+
  have "(- 999999999 * us_per_day) div us_per_day \<le> k div us_per_day"
    using b(1) p by (rule zdiv_mono1)
  moreover have "k div us_per_day \<le> (999999999 * us_per_day) div us_per_day"
    using b(2) p by (rule zdiv_mono1)
  ultimately have "- 999999999 \<le> k div us_per_day" "k div us_per_day \<le> 999999999"
    by (simp_all add: us_per_day_def)
  then show ?thesis by (simp add: timedelta_of_us_def Let_def)
qed


lemma parse_hours:
  assumes "CHR ''/'' \<notin> set start_str" and "CHR ''/'' \<notin> set n_str"
      and "fromisoformat bi start_str = Some parsed"
      and "py_float bi n_str = Some (Finite n)"
      and "\<bar>n * of_int us_per_hour - of_int k\<bar> \<le> 2 / 5"
      and "\<bar>k\<bar> \<le> 999999999 * us_per_day"
  shows "parse_valid_time bi (start_str @ ''/PT'' @ n_str @ ''H'') =
           Inr (utc_if_naive parsed, k)"
proof -
  have "timedelta_hours (Finite n) = Inr k"
    using us_of_hours_near [OF assms(5)] timedelta_of_us_in_range [OF assms(6)] by simp
  then show ?thesis
    using parse_valid_time_PT [OF assms(1,2) _ assms(3,4), of "CHR ''H''"]
    by (simp add: bind_err_def)
qed








section \<open>Rainfall accumulation: properties\<close>

lemma utc_instant_utc_if_naive: "utc_instant (utc_if_naive dt) = utc_instant dt"
  by (cases "utcoffset_us dt") (simp_all add: utc_instant_def utc_if_naive_def)

lemma wall_us_utc_if_naive: "wall_us (utc_if_naive dt) = wall_us dt"
  by (simp add: utc_if_naive_def)

lemma dt_add_instant: "dt_add dt td = Inr e \<Longrightarrow> utc_instant e = utc_instant dt + td"
  by (auto simp: dt_add_def Let_def utc_instant_def split: if_splits)

lemma dt_add_returns:
  "0 \<le> wall_us dt + td \<Longrightarrow> wall_us dt + td \<le> max_wall_us \<Longrightarrow> \<exists>e. dt_add dt td = Inr e"
  by (simp add: dt_add_def Let_def)

lemma dt_add_raises:
  "\<not> (0 \<le> wall_us dt + td \<and> wall_us dt + td \<le> max_wall_us) \<Longrightarrow>
     dt_add dt td = Inl (OverflowError ''date value out of range'')"
  by (auto simp: dt_add_def Let_def)

lemma utc_instant_dt_max: "utc_instant (dt_max a b) = max (utc_instant a) (utc_instant b)"
  by (simp add: dt_max_def max_def)

lemma utc_instant_dt_min: "utc_instant (dt_min a b) = min (utc_instant a) (utc_instant b)"
  by (simp add: dt_min_def min_def)

lemma total_hours_pos: "0 < d \<Longrightarrow> 0 < total_hours d"
proof -
  assume "0 < d"
  then have "(0 :: rat) < of_int d / 1000000" by simp
  then have "0 < total_seconds d" unfolding total_seconds_def by (rule float_of_pos)
  then have "0 < total_seconds d / 3600" by simp
  then show ?thesis unfolding total_hours_def by (rule float_of_pos)
qed

lemma total_hours_double: "total_hours (2 * d) = 2 * total_hours d"
proof -
  have "total_seconds (2 * d) = 2 * total_seconds d"
    using float_of_times2 [of "of_int d / 1000000"] by (simp add: total_seconds_def)
  then show ?thesis
    using float_of_times2 [of "total_seconds d / 3600"] by (simp add: total_hours_def)
qed

lemma float_of_one: "float_of 1 = 1"
  using float_of_int [of 1] by simp

lemma float_of_one_half: "float_of (1 / 2) = 1 / 2"
  using float_of_half [of 1] by (simp add: float_of_one)

lemma overlap_le_duration: "window_overlap_us now s d \<le> d"
  by (simp add: window_overlap_us_def)

lemma rain_loop_Cons:
  assumes "utc_instant window_end = utc_instant now + 72 * us_per_hour"
  shows "rain_loop now window_end (e # es) t =
           (if \<not> end_representable e then Inl (OverflowError ''date value out of range'')
            else if counted now e
            then rain_loop now window_end es (float_of (t + prorated now e))
            else rain_loop now window_end es t)"
proof (cases "\<exists>s d v. qe_start e = Some s \<and> qe_duration e = Some d \<and> qe_value_mm e = Some v")
  case False
  then show ?thesis
    by (auto simp: end_representable_def counted_def split: option.splits)
next
  case True
  then obtain s d v where f: "qe_start e = Some s" "qe_duration e = Some d" "qe_value_mm e = Some v"
    by blast
  show ?thesis
  proof (cases "0 \<le> wall_us s + d \<and> wall_us s + d \<le> max_wall_us")
    case False
    then have "dt_add (utc_if_naive s) d = Inl (OverflowError ''date value out of range'')"
      by (intro dt_add_raises) (simp add: wall_us_utc_if_naive)
    with False f show ?thesis
      by (simp add: end_representable_def bind_err_def)
  next
    case True
    then obtain end_dt where a: "dt_add (utc_if_naive s) d = Inr end_dt"
      using dt_add_returns [of "utc_if_naive s" d] by (auto simp: wall_us_utc_if_naive)
    have i: "utc_instant end_dt = utc_instant s + d"
      using dt_add_instant [OF a] by (simp add: utc_instant_utc_if_naive)
    define ov where "ov = window_overlap_us now s d"
    have ov: "ov = min (utc_instant s + d) (utc_instant now + 72 * us_per_hour)
                   - max (utc_instant s) (utc_instant now)"
      by (simp add: ov_def window_overlap_us_def)
    have sub: "dt_sub (dt_min end_dt window_end) (dt_max (utc_if_naive s) now) = ov"
      by (simp add: dt_sub_def utc_instant_dt_min utc_instant_dt_max i assms
          utc_instant_utc_if_naive ov)
    have guard: "utc_instant (dt_max (utc_if_naive s) now)
                   \<ge> utc_instant (dt_min end_dt window_end) \<longleftrightarrow> ov \<le> 0"
      by (simp add: utc_instant_dt_min utc_instant_dt_max i assms utc_instant_utc_if_naive ov)
    have r: "end_representable e" using True f by (simp add: end_representable_def)
    show ?thesis
    proof (cases "0 < ov")
      case False
      then have "\<not> counted now e" using f by (simp add: counted_def ov_def)
      with False r show ?thesis
        using f a guard by (simp add: bind_err_def Let_def)
    next
      case pos: True
      have "ov \<le> d" unfolding ov_def by (rule overlap_le_duration)
      with pos have d: "0 < d" by linarith
      then have h: "0 < total_hours d" by (rule total_hours_pos)
      have c: "counted now e" using f pos d by (simp add: counted_def ov_def)
      have p: "prorated now e = float_of (v * float_of (total_hours ov / total_hours d))"
        using f by (simp add: prorated_def ov_def)
      from pos have ng: "\<not> ov \<le> 0" by simp
      show ?thesis
        using f a h r c
        by (simp add: bind_err_def Let_def guard ng sub py_truediv_def p)
    qed
  qed
qed

lemma rain_loop_returns:
  assumes "utc_instant window_end = utc_instant now + 72 * us_per_hour"
      and "list_all end_representable es"
  shows "rain_loop now window_end es t =
           Inr (foldl (\<lambda>acc c. float_of (acc + c)) t
                  (map (prorated now) (filter (counted now) es)))"
  using assms(2)
proof (induction es arbitrary: t)
  case Nil
  show ?case by simp
next
  case (Cons e es)
  then show ?case
    unfolding rain_loop_Cons [OF assms(1)] by simp
qed

lemma rain_loop_Inr:
  assumes "utc_instant window_end = utc_instant now + 72 * us_per_hour"
      and "rain_loop now window_end es t = Inr total_mm"
  shows "total_mm = foldl (\<lambda>acc c. float_of (acc + c)) t
                   (map (prorated now) (filter (counted now) es))"
  using assms(2)
proof (induction es arbitrary: t)
  case Nil
  then show ?case by simp
next
  case (Cons e es)
  from Cons.prems show ?case
    unfolding rain_loop_Cons [OF assms(1)]
    by (auto split: if_splits dest: Cons.IH)
qed

lemma rain_loop_Inl:
  assumes "utc_instant window_end = utc_instant now + 72 * us_per_hour"
      and "rain_loop now window_end es t = Inl err"
  shows "err = OverflowError ''date value out of range''"
  using assms(2)
proof (induction es arbitrary: t)
  case Nil
  then show ?case by simp
next
  case (Cons e es)
  from Cons.prems show ?case
    unfolding rain_loop_Cons [OF assms(1)]
    by (auto split: if_splits dest: Cons.IH)
qed

lemma window_end_instant:
  "dt_add now (72 * us_per_hour) = Inr window_end \<Longrightarrow>
     utc_instant window_end = utc_instant now + 72 * us_per_hour"
  by (rule dt_add_instant)

lemma compute_Inr:
  assumes "compute_72h_rain_mm_at now fc = Inr total_mm"
  shows "total_mm = float_sum (map (prorated now) (filter (counted now) (qpf fc)))"
proof -
  from assms obtain window_end where w: "dt_add now (72 * us_per_hour) = Inr window_end"
    and l: "rain_loop now window_end (qpf fc) 0 = Inr total_mm"
    by (auto simp: compute_72h_rain_mm_at_def bind_err_def Let_def split: sum.splits)
  from rain_loop_Inr [OF window_end_instant [OF w] l] show ?thesis
    by (simp add: float_sum_def)
qed

lemma compute_returns:
  assumes "window_representable now" and "list_all end_representable (qpf fc)"
  shows "compute_72h_rain_mm_at now fc =
           Inr (float_sum (map (prorated now) (filter (counted now) (qpf fc))))"
proof -
  from assms(1) obtain window_end where w: "dt_add now (72 * us_per_hour) = Inr window_end"
    using dt_add_returns [of now "72 * us_per_hour"] by (auto simp: window_representable_def)
  from rain_loop_returns [OF window_end_instant [OF w] assms(2)] w show ?thesis
    by (simp add: compute_72h_rain_mm_at_def bind_err_def Let_def float_sum_def)
qed

lemma compute_Inl:
  assumes "compute_72h_rain_mm_at now fc = Inl err"
  shows "err = OverflowError ''date value out of range''"
proof (cases "dt_add now (72 * us_per_hour)")
  case (Inl x)
  then have "x = OverflowError ''date value out of range''"
    by (auto simp: dt_add_def Let_def split: if_splits)
  with Inl assms show ?thesis
    by (simp add: compute_72h_rain_mm_at_def bind_err_def Let_def)
next
  case (Inr window_end)
  with assms have "rain_loop now window_end (qpf fc) 0 = Inl err"
    by (simp add: compute_72h_rain_mm_at_def bind_err_def Let_def)
  from rain_loop_Inl [OF window_end_instant [OF Inr] this] show ?thesis .
qed

lemma counted_period: "counted now (period s d v) \<longleftrightarrow> 0 < d \<and> 0 < window_overlap_us now s d"
  by (simp add: counted_def period_def)

lemma prorated_period_inside:
  assumes "0 < d" and "utc_instant now \<le> utc_instant s"
      and "utc_instant s + d \<le> utc_instant now + 72 * us_per_hour"
  shows "counted now (period s d v)" and "prorated now (period s d v) = float_of v"
proof -
  have ov: "window_overlap_us now s d = d" using assms by (simp add: window_overlap_us_def)
  show "counted now (period s d v)" using assms(1) ov by (simp add: counted_period)
  have "total_hours d \<noteq> 0" using total_hours_pos [OF assms(1)] by simp
  then show "prorated now (period s d v) = float_of v"
    by (simp add: prorated_def period_def ov float_of_one)
qed

lemma prorated_period_half:
  assumes "0 < d" and "2 * window_overlap_us now s d = d"
  shows "counted now (period s d v)" and "prorated now (period s d v) = float_of v / 2"
proof -
  define ov where "ov = window_overlap_us now s d"
  have d: "d = 2 * ov" using assms(2) by (simp add: ov_def)
  have ov: "0 < ov" using assms(1) d by simp
  show "counted now (period s d v)" using assms(1) ov by (simp add: counted_period ov_def)
  have h: "total_hours ov \<noteq> 0" using total_hours_pos [OF ov] by simp
  have "total_hours ov / total_hours d = 1 / 2"
    using h by (simp add: d total_hours_double)
  then have "prorated now (period s d v) = float_of (v * (1 / 2))"
    by (simp add: prorated_def period_def ov_def [symmetric] float_of_one_half)
  also have "\<dots> = float_of v / 2" using float_of_half [of v] by simp
  finally show "prorated now (period s d v) = float_of v / 2" .
qed

lemma prorated_nonneg:
  assumes "counted now e" and "\<And>v. qe_value_mm e = Some v \<Longrightarrow> 0 \<le> v"
  shows "0 \<le> prorated now e"
proof -
  from assms(1) obtain s d v where f: "qe_start e = Some s" "qe_duration e = Some d"
      "qe_value_mm e = Some v" and p: "0 < d" "0 < window_overlap_us now s d"
    by (auto simp: counted_def split: option.splits)
  have "0 < total_hours (window_overlap_us now s d) / total_hours d"
    using total_hours_pos [OF p(1)] total_hours_pos [OF p(2)] by simp
  then have "0 < float_of (total_hours (window_overlap_us now s d) / total_hours d)"
    by (rule float_of_pos)
  moreover have "0 \<le> v" using assms(2) f(3) by simp
  ultimately have "0 \<le> v * float_of (total_hours (window_overlap_us now s d) / total_hours d)"
    by simp
  then show ?thesis using f by (simp add: prorated_def float_of_nonneg)
qed

lemma foldl_float_add_nonneg:
  "0 \<le> t \<Longrightarrow> (\<And>c. c \<in> set cs \<Longrightarrow> 0 \<le> c) \<Longrightarrow>
     0 \<le> foldl (\<lambda>acc c. float_of (acc + c)) t cs"
proof (induction cs arbitrary: t)
  case Nil
  then show ?case by simp
next
  case (Cons c cs)
  have "0 \<le> float_of (t + c)" using Cons.prems by (intro float_of_nonneg) simp
  then show ?case using Cons.prems by (simp add: Cons.IH)
qed

lemma float_sum_nonneg:
  assumes "\<forall>e\<in>set es. \<forall>v. qe_value_mm e = Some v \<longrightarrow> 0 \<le> v"
  shows "0 \<le> float_sum (map (prorated now) (filter (counted now) es))"
  unfolding float_sum_def
  by (rule foldl_float_add_nonneg) (use assms in \<open>auto intro: prorated_nonneg\<close>)

lemma rain_loop_raises:
  assumes "utc_instant window_end = utc_instant now + 72 * us_per_hour"
      and "\<not> list_all end_representable es"
  shows "rain_loop now window_end es t = Inl (OverflowError ''date value out of range'')"
  using assms(2)
proof (induction es arbitrary: t)
  case Nil
  then show ?case by simp
next
  case (Cons e es)
  show ?case
  proof (cases "end_representable e")
    case False
    then show ?thesis unfolding rain_loop_Cons [OF assms(1)] by simp
  next
    case True
    with Cons.prems have "\<not> list_all end_representable es" by simp
    from Cons.IH [OF this] show ?thesis
      unfolding rain_loop_Cons [OF assms(1)] by simp
  qed
qed

lemma compute_raises:
  assumes "\<not> (window_representable now \<and> list_all end_representable (qpf fc))"
  shows "compute_72h_rain_mm_at now fc = Inl (OverflowError ''date value out of range'')"
proof (cases "window_representable now")
  case False
  then have "dt_add now (72 * us_per_hour) = Inl (OverflowError ''date value out of range'')"
    by (intro dt_add_raises) (simp add: window_representable_def)
  then show ?thesis by (simp add: compute_72h_rain_mm_at_def bind_err_def Let_def)
next
  case True
  then obtain window_end where w: "dt_add now (72 * us_per_hour) = Inr window_end"
    using dt_add_returns [of now "72 * us_per_hour"] by (auto simp: window_representable_def)
  from True assms have "\<not> list_all end_representable (qpf fc)" by simp
  from rain_loop_raises [OF window_end_instant [OF w] this] w show ?thesis
    by (simp add: compute_72h_rain_mm_at_def bind_err_def Let_def)
qed

lemma compute_cases:
  "compute_72h_rain_mm_at now fc =
     (if window_representable now \<and> list_all end_representable (qpf fc)
      then Inr (float_sum (map (prorated now) (filter (counted now) (qpf fc))))
      else Inl (OverflowError ''date value out of range''))"
  using compute_returns [of now fc] compute_raises [of now fc] by simp

lemma compute_with_period:
  assumes "compute_72h_rain_mm_at now fc = Inr total_mm" and "end_representable e"
  shows "compute_72h_rain_mm_at now (with_period fc e) =
           Inr (if counted now e then float_of (total_mm + prorated now e) else total_mm)"
proof -
  have r: "window_representable now \<and> list_all end_representable (qpf fc)"
    using assms(1) compute_raises [of now fc] by auto
  have t: "total_mm = float_sum (map (prorated now) (filter (counted now) (qpf fc)))"
    using assms(1) by (rule compute_Inr)
  have "list_all end_representable (qpf (with_period fc e))"
    using r assms(2) by (simp add: with_period_def)
  with r have "compute_72h_rain_mm_at now (with_period fc e) =
      Inr (float_sum (map (prorated now) (filter (counted now) (qpf (with_period fc e)))))"
    by (intro compute_returns) simp_all
  then show ?thesis by (simp add: t with_period_def float_sum_def)
qed

lemma not_counted_period:
  "d \<le> 0 \<or> window_overlap_us now s d \<le> 0 \<Longrightarrow> \<not> counted now (period s d v)"
  by (auto simp: counted_period)

text \<open>
  Claim C4, as stated for every collection of periods, fails. The end of each period,
  \<open>start + duration\<close>, is formed before its overlap with the window is looked at. A
  period that lies after the window and whose end is later than the year 9999 does not
  contribute zero: \<open>compute_72h_rain_mm\<close> raises \<open>OverflowError\<close> and there is no total.
  \<open>fetch_nws_forecast\<close> stores such a period for the \<open>validTime\<close>
  \<open>9999-12-31T00:00:00+00:00/PT48H\<close>.
\<close>

theorem rain_total_raises_on_period_beyond_9999:
  "qpf_entries_of example_builtins
     [\<lparr> validTime = Some ''9999-12-31T00:00:00+00:00/PT48H'', gv_value = Some 4 \<rparr>] =
     qpf rain_far
   \<and> window_overlap_us feb10 dec31_9999 (48 * us_per_hour) \<le> 0
   \<and> compute_72h_rain_mm_at feb10 rain_far = Inl (OverflowError ''date value out of range'')"
proof -
  have s: "CHR ''/'' \<notin> set ''9999-12-31T00:00:00+00:00''" "CHR ''/'' \<notin> set ''48''"
    by simp_all
  have f: "fromisoformat example_builtins ''9999-12-31T00:00:00+00:00'' = Some dec31_9999"
    "py_float example_builtins ''48'' = Some (Finite 48)"
    by (simp_all add: example_builtins_def example_fromisoformat_def example_float_def)
  have a: "\<bar>(48 :: rat) * of_int us_per_hour - of_int (48 * us_per_hour)\<bar> \<le> 2 / 5"
    "\<bar>48 * us_per_hour\<bar> \<le> 999999999 * us_per_day"
    by (simp_all add: us_per_hour_def us_per_day_def)
  have u: "utc_if_naive dec31_9999 = dec31_9999"
    by (simp add: utc_if_naive_def dec31_9999_def utc_def)
  have p: "parse_valid_time example_builtins ''9999-12-31T00:00:00+00:00/PT48H'' =
             Inr (dec31_9999, 48 * us_per_hour)"
    using parse_hours [OF s f a] by (simp add: u)
  have v: "float_of 4 = 4" using float_of_int [of 4] by simp
  have 1: "qpf_entries_of example_builtins
             [\<lparr> validTime = Some ''9999-12-31T00:00:00+00:00/PT48H'', gv_value = Some 4 \<rparr>] =
           qpf rain_far"
    by (simp add: p v rain_far_def period_def)
  have 2: "window_overlap_us feb10 dec31_9999 (48 * us_per_hour) \<le> 0"
    by (simp add: window_overlap_us_def utc_instant_def feb10_def dec31_9999_def utc_def
        us_per_hour_def us_per_day_def)
  have "\<not> list_all end_representable (qpf rain_far)"
    by (simp add: rain_far_def end_representable_def period_def dec31_9999_def utc_def
        max_wall_us_def us_per_hour_def us_per_day_def)
  then have 3: "compute_72h_rain_mm_at feb10 rain_far =
                  Inl (OverflowError ''date value out of range'')"
    by (intro compute_raises) simp
  show ?thesis using 1 2 3 by simp
qed

text \<open>
  Claim C4, amended. Take a forecast within the float range and any reference time
  \<open>now\<close>. If \<open>now + 72h\<close> and the end \<open>start + duration\<close> of every period with all its
  fields are dates up to the year 9999, \<open>compute_72h_rain_mm\<close> returns the sum, formed in
  list order and in float arithmetic, of \<open>value_mm * (overlap_hours / interval_hours)\<close> over
  the periods of positive duration and positive overlap with \<open>[now, now + 72h)\<close>;
  otherwise it raises \<open>OverflowError\<close>. It never divides by a duration that is not
  positive. One more period at the end of the forecast (with a representable end and a
  plain value) changes a total that is returned as follows: a period of positive
  duration inside the window adds its value; one with half its duration in the window
  adds half its value; one without a positive overlap or without a positive duration
  leaves the total as it is.
\<close>

theorem rain_total_is_float_sum_of_prorated:
  assumes "within_float_range fc" and "timedelta_range d" and "plain_float v"
  shows "compute_72h_rain_mm_at now fc =
           (if window_representable now \<and> list_all end_representable (qpf fc)
            then Inr (float_sum (map (prorated now) (filter (counted now) (qpf fc))))
            else Inl (OverflowError ''date value out of range''))
       \<and> (compute_72h_rain_mm_at now fc = Inr total_mm \<and> end_representable (period s d v) \<longrightarrow>
            (0 < d \<and> utc_instant now \<le> utc_instant s
               \<and> utc_instant s + d \<le> utc_instant now + 72 * us_per_hour \<longrightarrow>
               compute_72h_rain_mm_at now (with_period fc (period s d v)) =
                 Inr (float_of (total_mm + v)))
          \<and> (0 < d \<and> 2 * window_overlap_us now s d = d \<longrightarrow>
               compute_72h_rain_mm_at now (with_period fc (period s d v)) =
                 Inr (float_of (total_mm + v / 2)))
          \<and> (d \<le> 0 \<or> window_overlap_us now s d \<le> 0 \<longrightarrow>
               compute_72h_rain_mm_at now (with_period fc (period s d v)) = Inr total_mm))"
proof -
  have v: "float_of v = v" using assms(3) by (simp add: plain_float_def)
  have 1: "compute_72h_rain_mm_at now fc =
           (if window_representable now \<and> list_all end_representable (qpf fc)
            then Inr (float_sum (map (prorated now) (filter (counted now) (qpf fc))))
            else Inl (OverflowError ''date value out of range''))"
    by (rule compute_cases)
  have 2: "compute_72h_rain_mm_at now (with_period fc (period s d v)) =
             Inr (float_of (total_mm + v))"
    if "compute_72h_rain_mm_at now fc = Inr total_mm" "end_representable (period s d v)"
      "0 < d" "utc_instant now \<le> utc_instant s"
      "utc_instant s + d \<le> utc_instant now + 72 * us_per_hour"
    using compute_with_period [OF that(1,2)] prorated_period_inside [OF that(3,4,5), of v]
    by (simp add: v)
  have 3: "compute_72h_rain_mm_at now (with_period fc (period s d v)) =
             Inr (float_of (total_mm + v / 2))"
    if "compute_72h_rain_mm_at now fc = Inr total_mm" "end_representable (period s d v)"
      "0 < d" "2 * window_overlap_us now s d = d"
    using compute_with_period [OF that(1,2)] prorated_period_half [OF that(3,4), of v]
    by (simp add: v)
  have 4: "compute_72h_rain_mm_at now (with_period fc (period s d v)) = Inr total_mm"
    if "compute_72h_rain_mm_at now fc = Inr total_mm" "end_representable (period s d v)"
      "d \<le> 0 \<or> window_overlap_us now s d \<le> 0"
    using compute_with_period [OF that(1,2)] not_counted_period [OF that(3), of v]
    by simp
  show ?thesis using 1 2 3 4 by blast
qed

lemma plain_float_of_int:
  assumes "\<bar>m\<bar> < 2 ^ 53"
  shows "plain_float (of_int m)"
proof -
  have f: "float_of (of_int m) = of_int m" using assms by (rule float_of_int)
  have "(of_int m :: rat) = 0 \<or> (1 / 2 ^ 900 \<le> \<bar>of_int m :: rat\<bar> \<and> \<bar>of_int m :: rat\<bar> \<le> 2 ^ 1000)"
  proof (cases "m = 0")
    case True
    then show ?thesis by simp
  next
    case False
    then have "1 \<le> \<bar>m\<bar>" by simp
    then have "(of_int 1 :: rat) \<le> of_int \<bar>m\<bar>" by (simp only: of_int_le_iff)
    then have l: "(1 :: rat) \<le> \<bar>of_int m\<bar>" by simp
    have "(1 :: rat) / 2 ^ 900 \<le> 1" by simp
    then have lo: "(1 :: rat) / 2 ^ 900 \<le> \<bar>of_int m\<bar>" using l by (rule order_trans)
    have "(of_int \<bar>m\<bar> :: rat) \<le> of_int (2 ^ 53)" using assms by (simp only: of_int_le_iff)
    then have "\<bar>of_int m :: rat\<bar> \<le> 2 ^ 53" by simp
    moreover have "(2 :: rat) ^ 53 \<le> 2 ^ 1000" by (rule power_increasing) simp_all
    ultimately have "\<bar>of_int m :: rat\<bar> \<le> 2 ^ 1000" by (rule order_trans)
    with lo show ?thesis by simp
  qed
  with f show ?thesis by (simp add: plain_float_def)
qed

lemma rain_ex_range: "within_float_range rain_ex"
proof -
  have "plain_float 4" "plain_float 6" "plain_float 9" "plain_float 3"
    using plain_float_of_int [of 4] plain_float_of_int [of 6] plain_float_of_int [of 9]
      plain_float_of_int [of 3] by simp_all
  then show ?thesis
    by (simp add: within_float_range_def rain_ex_def period_def timedelta_range_def
        us_per_hour_def us_per_day_def)
qed

lemma rain_ex_ends:
  "window_representable feb10" "list_all end_representable (qpf rain_ex)"
  by (simp_all add: window_representable_def rain_ex_def end_representable_def period_def
      feb10_def utc_def max_wall_us_def us_per_hour_def us_per_day_def)

lemma rain_ex_counted:
  "filter (counted feb10) (qpf rain_ex) =
     [period feb10 us_per_hour 4,
      period (utc (738925 * us_per_day - us_per_hour)) (2 * us_per_hour) 6]"
  by (simp add: rain_ex_def counted_period window_overlap_us_def utc_instant_def feb10_def
      utc_def us_per_hour_def us_per_day_def)

lemma rain_ex_prorated:
  "prorated feb10 (period feb10 us_per_hour 4) = 4"
  "prorated feb10 (period (utc (738925 * us_per_day - us_per_hour)) (2 * us_per_hour) 6) = 3"
proof -
  have "0 < us_per_hour" "utc_instant feb10 \<le> utc_instant feb10"
    "utc_instant feb10 + us_per_hour \<le> utc_instant feb10 + 72 * us_per_hour"
    by (simp_all add: us_per_hour_def)
  from prorated_period_inside(2) [OF this, of 4] show
    "prorated feb10 (period feb10 us_per_hour 4) = 4"
    using float_of_int [of 4] by simp
  have "0 < 2 * us_per_hour"
    "2 * window_overlap_us feb10 (utc (738925 * us_per_day - us_per_hour)) (2 * us_per_hour) =
       2 * us_per_hour"
    by (simp_all add: window_overlap_us_def utc_instant_def feb10_def utc_def us_per_hour_def
        us_per_day_def)
  from prorated_period_half(2) [OF this, of 6] show
    "prorated feb10 (period (utc (738925 * us_per_day - us_per_hour)) (2 * us_per_hour) 6) = 3"
    using float_of_int [of 6] by simp
qed

lemma rain_ex_sum:
  "float_sum (map (prorated feb10) (filter (counted feb10) (qpf rain_ex))) = 7"
  unfolding rain_ex_counted
  using float_of_int [of 4] float_of_int [of 7]
  by (simp add: float_sum_def rain_ex_prorated)

theorem rain_total_is_float_sum_of_prorated_witness:
  "within_float_range rain_ex \<and> window_representable feb10
   \<and> list_all end_representable (qpf rain_ex)
   \<and> compute_72h_rain_mm_at feb10 rain_ex = Inr 7
   \<and> compute_72h_rain_mm_at feb10
       (with_period rain_ex (period (utc (738926 * us_per_day)) (12 * us_per_hour) 2)) = Inr 9
   \<and> compute_72h_rain_mm_at feb10
       (with_period rain_ex
          (period (utc (738928 * us_per_day - 3 * us_per_hour)) (6 * us_per_hour) 5)) =
       Inr (19 / 2)
   \<and> compute_72h_rain_mm_at feb10
       (with_period rain_ex (period (utc (738930 * us_per_day)) us_per_hour 8)) = Inr 7
   \<and> compute_72h_rain_mm_at feb10 (with_period rain_ex (period feb10 (- us_per_hour) 8)) =
       Inr 7"
proof -
  let ?inside = "utc (738926 * us_per_day)"
  let ?half = "utc (738928 * us_per_day - 3 * us_per_hour)"
  let ?after = "utc (738930 * us_per_day)"
  have d: "timedelta_range (12 * us_per_hour)" "timedelta_range (6 * us_per_hour)"
    "timedelta_range us_per_hour" "timedelta_range (- us_per_hour)"
    by (simp_all add: timedelta_range_def us_per_hour_def us_per_day_def)
  have v: "plain_float 2" "plain_float 5" "plain_float 8"
    using plain_float_of_int [of 2] plain_float_of_int [of 5] plain_float_of_int [of 8]
    by simp_all
  have e: "end_representable (period ?inside (12 * us_per_hour) 2)"
    "end_representable (period ?half (6 * us_per_hour) 5)"
    "end_representable (period ?after us_per_hour 8)"
    "end_representable (period feb10 (- us_per_hour) 8)"
    by (simp_all add: end_representable_def period_def feb10_def utc_def max_wall_us_def
        us_per_hour_def us_per_day_def)
  have t: "compute_72h_rain_mm_at feb10 rain_ex = Inr 7"
    using rain_total_is_float_sum_of_prorated [OF rain_ex_range d(1) v(1), of feb10]
      rain_ex_ends rain_ex_sum by simp
  have i: "0 < 12 * us_per_hour \<and> utc_instant feb10 \<le> utc_instant ?inside
      \<and> utc_instant ?inside + 12 * us_per_hour \<le> utc_instant feb10 + 72 * us_per_hour"
    by (simp add: utc_instant_def feb10_def utc_def us_per_hour_def us_per_day_def)
  have h: "0 < 6 * us_per_hour
      \<and> 2 * window_overlap_us feb10 ?half (6 * us_per_hour) = 6 * us_per_hour"
    by (simp add: window_overlap_us_def utc_instant_def feb10_def utc_def us_per_hour_def
        us_per_day_def)
  have a: "us_per_hour \<le> 0 \<or> window_overlap_us feb10 ?after us_per_hour \<le> 0"
    by (simp add: window_overlap_us_def utc_instant_def feb10_def utc_def us_per_hour_def
        us_per_day_def)
  have n: "- us_per_hour \<le> 0 \<or> window_overlap_us feb10 feb10 (- us_per_hour) \<le> 0"
    by (simp add: us_per_hour_def)
  have f: "float_of 9 = 9" "float_of (19 / 2) = 19 / 2"
    using float_of_int [of 9] float_of_int [of 19] float_of_half [of 19] by simp_all
  have 1: "compute_72h_rain_mm_at feb10
             (with_period rain_ex (period ?inside (12 * us_per_hour) 2)) =
           Inr (float_of (7 + 2))"
    using rain_total_is_float_sum_of_prorated [OF rain_ex_range d(1) v(1), of feb10 7 ?inside]
      t e(1) i by blast
  have 2: "compute_72h_rain_mm_at feb10
             (with_period rain_ex (period ?half (6 * us_per_hour) 5)) =
           Inr (float_of (7 + 5 / 2))"
    using rain_total_is_float_sum_of_prorated [OF rain_ex_range d(2) v(2), of feb10 7 ?half]
      t e(2) h by blast
  have 3: "compute_72h_rain_mm_at feb10 (with_period rain_ex (period ?after us_per_hour 8)) =
           Inr 7"
    using rain_total_is_float_sum_of_prorated [OF rain_ex_range d(3) v(3), of feb10 7 ?after]
      t e(3) a by blast
  have 4: "compute_72h_rain_mm_at feb10 (with_period rain_ex (period feb10 (- us_per_hour) 8)) =
           Inr 7"
    using rain_total_is_float_sum_of_prorated [OF rain_ex_range d(4) v(3), of feb10 7 feb10]
      t e(4) n by blast
  show ?thesis using rain_ex_range rain_ex_ends t 1 2 3 4 by (simp add: f)
qed

text \<open>
  Claim C5, as stated for any \<open>value_mm\<close> values, fails: the values are neither checked
  nor clamped, and one period of an hour at the start of the window with the value
  \<open>-5\<close> gives the total \<open>-5\<close>.
\<close>

theorem rain_total_negative_for_negative_value:
  "within_float_range rain_cx
   \<and> compute_72h_rain_mm_at feb10 rain_cx = Inr (- 5) \<and> (- 5 :: rat) < 0"
proof -
  have "plain_float (- 5)" using plain_float_of_int [of "- 5"] by simp
  then have r: "within_float_range rain_cx"
    by (simp add: within_float_range_def rain_cx_def period_def timedelta_range_def
        us_per_hour_def us_per_day_def)
  have e: "window_representable feb10" "list_all end_representable (qpf rain_cx)"
    by (simp_all add: window_representable_def rain_cx_def end_representable_def period_def
        feb10_def utc_def max_wall_us_def us_per_hour_def us_per_day_def)
  have p: "0 < us_per_hour" "utc_instant feb10 \<le> utc_instant feb10"
    "utc_instant feb10 + us_per_hour \<le> utc_instant feb10 + 72 * us_per_hour"
    by (simp_all add: us_per_hour_def)
  have f: "float_of (- 5) = - 5" using float_of_int [of "- 5"] by simp
  have "float_sum (map (prorated feb10) (filter (counted feb10) (qpf rain_cx))) = - 5"
    using prorated_period_inside [OF p, of "- 5"] by (simp add: rain_cx_def float_sum_def f)
  with compute_returns [OF e] have "compute_72h_rain_mm_at feb10 rain_cx = Inr (- 5)" by simp
  with r show ?thesis by simp
qed

text \<open>
  Claim C5, amended. For a forecast within the float range none of whose periods has a
  negative \<open>value_mm\<close>, and every reference time: if \<open>now + 72h\<close> and the end of every
  period with all its fields are dates up to the year 9999, \<open>compute_72h_rain_mm\<close>
  returns a total, and it is not negative; otherwise it raises \<open>OverflowError\<close>.
\<close>

theorem rain_total_nonneg_for_nonneg_values:
  assumes "within_float_range fc" and "nonneg_values fc"
  shows "if window_representable now \<and> list_all end_representable (qpf fc)
         then \<exists>total_mm. compute_72h_rain_mm_at now fc = Inr total_mm \<and> 0 \<le> total_mm
         else compute_72h_rain_mm_at now fc = Inl (OverflowError ''date value out of range'')"
proof (cases "window_representable now \<and> list_all end_representable (qpf fc)")
  case True
  have "\<forall>e\<in>set (qpf fc). \<forall>v. qe_value_mm e = Some v \<longrightarrow> 0 \<le> v"
    using assms(2) by (auto simp: nonneg_values_def list_all_iff split: option.splits)
  then have "0 \<le> float_sum (map (prorated now) (filter (counted now) (qpf fc)))"
    by (rule float_sum_nonneg)
  moreover have "compute_72h_rain_mm_at now fc =
      Inr (float_sum (map (prorated now) (filter (counted now) (qpf fc))))"
    using True by (intro compute_returns) simp_all
  ultimately show ?thesis using True by simp
next
  case False
  then show ?thesis using compute_raises [of now fc] by simp
qed

theorem rain_total_nonneg_witness:
  "within_float_range rain_ex \<and> nonneg_values rain_ex \<and> window_representable feb10
   \<and> list_all end_representable (qpf rain_ex)
   \<and> (\<exists>total_mm. compute_72h_rain_mm_at feb10 rain_ex = Inr total_mm \<and> 0 \<le> total_mm)"
proof -
  have n: "nonneg_values rain_ex"
    by (simp add: nonneg_values_def rain_ex_def period_def)
  show ?thesis
    using rain_total_nonneg_for_nonneg_values [OF rain_ex_range n, of feb10] rain_ex_range n
      rain_ex_ends
    by simp
qed

section \<open>Stage ingestion: properties\<close>

lemma retained_Nil: "retained code [] = None"
  by (simp add: retained_def)

lemma retained_Cons:
  "retained code (s # ss) =
     (case retained code ss of
        Some v \<Rightarrow> Some v
      | None \<Rightarrow> if param_code_of s = Some code then reading s else None)"
proof -
  let ?P = "\<lambda>s. param_code_of s = Some code \<and> reading s \<noteq> None"
  show ?thesis
  proof (cases "filter ?P ss = []")
    case True
    then show ?thesis by (auto simp: retained_def)
  next
    case False
    then have "last (filter ?P ss) \<in> set (filter ?P ss)" by (rule last_in_set)
    then have "reading (last (filter ?P ss)) \<noteq> None" by simp
    with False show ?thesis by (auto simp: retained_def)
  qed
qed

lemma series_step_vars:
  "series_step s (st, dc, ts) = (st', dc', ts') \<Longrightarrow>
     st' = (if param_code_of s = Some ''00065'' \<and> reading s \<noteq> None then reading s else st)
   \<and> dc' = (if param_code_of s = Some ''00060'' \<and> reading s \<noteq> None then reading s else dc)"
  by (auto simp: series_step_def reading_def last_sample_def Let_def
      split: list.splits option.splits if_splits)

lemma series_loop_retained:
  "series_loop ss (st, dc, ts) = (st', dc', ts') \<Longrightarrow>
     st' = (case retained ''00065'' ss of None \<Rightarrow> st | Some v \<Rightarrow> Some v)
   \<and> dc' = (case retained ''00060'' ss of None \<Rightarrow> dc | Some v \<Rightarrow> Some v)"
proof (induction ss arbitrary: st dc ts)
  case Nil
  then show ?case by (simp add: retained_Nil)
next
  case (Cons s ss)
  obtain st1 dc1 ts1 where step: "series_step s (st, dc, ts) = (st1, dc1, ts1)"
    by (cases "series_step s (st, dc, ts)") auto
  with Cons.prems have "series_loop ss (st1, dc1, ts1) = (st', dc', ts')" by simp
  from Cons.IH [OF this] series_step_vars [OF step] show ?case
    by (auto simp: retained_Cons split: option.splits)
qed

lemma chronologically_latest_ascending:
  "es \<noteq> [] \<Longrightarrow> ascending es \<Longrightarrow> chronologically_latest es = Some (last es)"
proof (induction es)
  case Nil
  then show ?case by simp
next
  case (Cons x xs)
  show ?case
  proof (cases "xs = []")
    case True
    with Cons.prems show ?thesis by (simp add: ascending_def)
  next
    case False
    from Cons.prems have asc: "ascending xs" by (simp add: ascending_def)
    from Cons.IH [OF False asc] have l: "chronologically_latest xs = Some (last xs)" .
    from False have "last xs \<in> set xs" by simp
    with Cons.prems have "earlier x (last xs)" by (simp add: ascending_def)
    then show ?thesis using l False
      by (auto simp: earlier_def split: option.splits)
  qed
qed

text \<open>
  Claim C6, amended. Whenever \<open>fetch_usgs_gauge_data\<close> returns a result, its stage and
  discharge values are selected by position: each is the value of the last sample
  (\<open>entries[-1]\<close>) of the first \<open>values\<close> element of the last \<open>timeSeries\<close> block that carries
  the parameter code and whose last sample is numeric. That sample is the chronologically
  latest of its block when the block's samples are in ascending order of time.
\<close>

theorem usgs_retains_last_positioned_sample:
  assumes "fetch_usgs_gauge_data sv gid w = (Inr r, w')"
  shows "(\<exists>payload. usgs_iv sv gid w = (Inr payload, w')
            \<and> obs_stage_ft r = retained ''00065'' payload
            \<and> obs_discharge_cfs r = retained ''00060'' payload)
       \<and> (values_blocks s = entries # others \<and> entries \<noteq> [] \<and> ascending entries
            \<longrightarrow> last_sample s = chronologically_latest entries)"
proof -
  from assms obtain payload where p: "usgs_iv sv gid w = (Inr payload, w')"
    and u: "usgs_result_of_payload gid payload = Inr r"
    by (auto simp: fetch_usgs_gauge_data_def split: prod.splits sum.splits)
  obtain st dc ts where l: "series_loop payload (None, None, None) = (st, dc, ts)"
    by (cases "series_loop payload (None, None, None)") auto
  from u l have "obs_stage_ft r = st" "obs_discharge_cfs r = dc"
    by (auto simp: usgs_result_of_payload_def split: if_splits)
  with series_loop_retained [OF l]
  have "obs_stage_ft r = retained ''00065'' payload
        \<and> obs_discharge_cfs r = retained ''00060'' payload"
    by (auto split: option.splits)
  with p have a: "\<exists>payload. usgs_iv sv gid w = (Inr payload, w')
            \<and> obs_stage_ft r = retained ''00065'' payload
            \<and> obs_discharge_cfs r = retained ''00060'' payload" by blast
  have b: "values_blocks s = entries # others \<and> entries \<noteq> [] \<and> ascending entries
            \<longrightarrow> last_sample s = chronologically_latest entries"
    by (auto simp: last_sample_def chronologically_latest_ascending)
  show ?thesis using a b by blast
qed

text \<open>
  Claim C6, as stated for samples in any order, fails: for a stage block holding the
  sample of time \<open>200\<close> (value \<open>9\<close>) before the sample of time \<open>100\<close> (value \<open>8\<close>), the code
  retains \<open>8\<close>, the value of the last position, while the chronologically latest sample
  has the value \<open>9\<close>.
\<close>

theorem usgs_keeps_positionally_last_not_latest:
  "map_sum id obs_stage_ft (usgs_result_of_payload ''11425500'' unordered_payload) = Inr (Some 8)
   \<and> map_option sample_value (chronologically_latest unordered_samples) = Some (Some 9)"
  by (simp add: usgs_result_of_payload_def unordered_payload_def unordered_samples_def
      series_step_def param_code_of_def py_or_def)

lemma example_fetch:
  "fetch_usgs_gauge_data example_services ''11425500'' () =
     (Inr \<lparr> obs_gauge_id = ''11425500'', obs_timestamp = Some 200,
            obs_stage_ft = Some (17 / 2), obs_discharge_cfs = Some 15000,
            obs_raw = ordered_payload \<rparr>, ())"
  by (simp add: fetch_usgs_gauge_data_def example_services_def usgs_result_of_payload_def
      ordered_payload_def ordered_samples_def series_step_def param_code_of_def py_or_def)

theorem usgs_retains_last_positioned_sample_witness:
  "fetch_usgs_gauge_data example_services ''11425500'' () =
     (Inr \<lparr> obs_gauge_id = ''11425500'', obs_timestamp = Some 200,
            obs_stage_ft = Some (17 / 2), obs_discharge_cfs = Some 15000,
            obs_raw = ordered_payload \<rparr>, ())
   \<and> retained ''00065'' ordered_payload = Some (17 / 2)
   \<and> retained ''00060'' ordered_payload = Some 15000
   \<and> chronologically_latest ordered_samples =
       Some \<lparr> sample_value = Some (17 / 2), dateTime = Some 200 \<rparr>"
proof -
  let ?s = "\<lparr> variableCode = [Some ''00065''], values_blocks = [ordered_samples] \<rparr>"
  have u: "usgs_iv example_services ''11425500'' () = (Inr ordered_payload, ())"
    by (simp add: example_services_def)
  have h: "values_blocks ?s = ordered_samples # [] \<and> ordered_samples \<noteq> []
           \<and> ascending ordered_samples"
    by (simp add: ordered_samples_def ascending_def earlier_def)
  have l: "last_sample ?s = Some \<lparr> sample_value = Some (17 / 2), dateTime = Some 200 \<rparr>"
    by (simp add: last_sample_def ordered_samples_def)
  show ?thesis
    using usgs_retains_last_positioned_sample [OF example_fetch, of ?s ordered_samples "[]"]
      example_fetch u h l
    by auto
qed

section \<open>Per-gauge ingestion and classification of all gauges: properties\<close>

lemma in_set_update:
  "(k', v') \<in> set (AList.update k v al) \<Longrightarrow> (k', v') = (k, v) \<or> (k', v') \<in> set al"
  by (induction al) (auto split: if_splits)





























lemma risk_from_rain_returns:
  "list_all (\<lambda>k. b k \<noteq> None) [''low'', ''medium'', ''high''] \<Longrightarrow>
     \<exists>r. risk_from_rain rain_mm b = Inr r"
  by (auto simp: risk_from_rain_def getitem_def bind_err_def split: option.splits)

lemma risk_from_stage_returns:
  "list_all (\<lambda>k. b k \<noteq> None) [''low'', ''medium'', ''high''] \<Longrightarrow>
     \<exists>r. risk_from_stage stage_ft flood_stage_ft b = Inr r"
  by (auto simp: risk_from_stage_def getitem_def bind_err_def Let_def split: option.splits)

lemma classify_gauge_returns:
  assumes "has_required_keys thresholds"
  shows "\<exists>a. classify_gauge gid stage_ft flood_stage_ft rain_mm thresholds = Inr a"
proof -
  from assms obtain rb sb where t: "thresholds ''rainfall_mm_72h'' = Some rb"
      "thresholds ''river_stage_ratio'' = Some sb"
    and rk: "list_all (\<lambda>k. rb k \<noteq> None) [''low'', ''medium'', ''high'']"
    and sk: "list_all (\<lambda>k. sb k \<noteq> None) [''low'', ''medium'', ''high'']"
    by (auto simp: has_required_keys_def split: option.splits)
  from risk_from_rain_returns [OF rk] obtain rr where rr: "risk_from_rain rain_mm rb = Inr rr"
    by blast
  from risk_from_stage_returns [OF sk] obtain sr
    where sr: "risk_from_stage stage_ft flood_stage_ft sb = Inr sr" by blast
  show ?thesis
    by (simp add: classify_gauge_def getitem_def bind_err_def t rr sr)
qed

lemma classify_all_loop_keys:
  "classify_all_loop fl rd thr usgs res = Inr out \<Longrightarrow>
     fst ` set out = fst ` set res \<union> fst ` set usgs"
proof (induction usgs arbitrary: res)
  case Nil
  then show ?case by simp
next
  case (Cons p usgs)
  obtain gid obs where p: "p = (gid, obs)" by (cases p)
  from Cons.prems obtain a where
    "classify_all_loop fl rd thr usgs (AList.update gid a res) = Inr out"
    by (auto simp: p bind_err_def Let_def split: sum.splits)
  from Cons.IH [OF this] show ?case
    by (auto simp: p AList.dom_update)
qed

lemma classify_all_loop_returns:
  "has_required_keys thr \<Longrightarrow> \<exists>out. classify_all_loop fl rd thr usgs res = Inr out"
proof (induction usgs arbitrary: res)
  case Nil
  show ?case by simp
next
  case (Cons p usgs)
  obtain gid obs where p: "p = (gid, obs)" by (cases p)
  from classify_gauge_returns [OF Cons.prems]
  obtain a where "classify_gauge gid (entry_stage_ft obs) (get_or_none fl gid)
                    (entry_rain_mm (map_of rd gid)) thr = Inr a" by blast
  with Cons.IH [OF Cons.prems] show ?case
    by (simp add: p bind_err_def)
qed

text \<open>
  Claim C10. Whenever \<open>classify_all\<close> returns, the keys of its mapping are exactly the keys
  of \<open>usgs_data\<close>: an identifier that is not a key of \<open>usgs_data\<close> has no entry, whether or
  not the configuration or \<open>rainfall_data\<close> know it, and every key of \<open>usgs_data\<close> has one.
  It returns for all inputs whose thresholds hold the keys the classification reads.
\<close>

theorem classify_all_keys_are_usgs_keys:
  "(classify_all usgs_data rainfall_data gauge_config thresholds = Inr results \<longrightarrow>
      fst ` set results = fst ` set usgs_data
      \<and> (\<forall>k. k \<notin> fst ` set usgs_data \<longrightarrow> map_of results k = None)
      \<and> (\<forall>k \<in> fst ` set usgs_data. \<exists>a. map_of results k = Some a))
   \<and> (has_required_keys thresholds \<longrightarrow>
        (\<exists>results. classify_all usgs_data rainfall_data gauge_config thresholds = Inr results))"
proof -
  have a: "fst ` set results = fst ` set usgs_data"
    if "classify_all usgs_data rainfall_data gauge_config thresholds = Inr results"
    using classify_all_loop_keys [of _ rainfall_data thresholds usgs_data "[]" results] that
    by (simp add: classify_all_def Let_def)
  have b: "map_of results k = None" if "fst ` set results = fst ` set usgs_data"
    and "k \<notin> fst ` set usgs_data" for k
    using that by (simp add: map_of_eq_None_iff)
  have c: "\<exists>a. map_of results k = Some a" if "fst ` set results = fst ` set usgs_data"
    and "k \<in> fst ` set usgs_data" for k
    using that by (cases "map_of results k") (auto simp: map_of_eq_None_iff)
  have d: "\<exists>results. classify_all usgs_data rainfall_data gauge_config thresholds = Inr results"
    if "has_required_keys thresholds"
    using classify_all_loop_returns [OF that] by (simp add: classify_all_def Let_def)
  show ?thesis using a b c d by blast
qed

lemma example_classify_all:
  "classify_all example_usgs_data example_rainfall_data (Some [gauge_a, gauge_b])
     test_thresholds = Inr example_results"
  by (simp add: classify_all_def flood_stage_lookup_of_def get_or_none_def
      example_usgs_data_def example_rainfall_data_def example_results_def
      gauge_a_def gauge_b_def classify_gauge_def bind_err_def getitem_def test_thresholds_def
      test_rain_bands_def test_stage_bands_def risk_from_rain_def risk_from_stage_def
      max_by_key_def rank_values stage_ratio_of_def Let_def)

theorem classify_all_keys_are_usgs_keys_witness:
  "classify_all example_usgs_data example_rainfall_data (Some [gauge_a, gauge_b])
     test_thresholds = Inr example_results
   \<and> has_required_keys test_thresholds
   \<and> fst ` set example_results = {''11425500'', ''99''}
   \<and> map_of example_results ''11447650'' = None
   \<and> map_of example_rainfall_data ''11447650'' \<noteq> None
   \<and> (\<exists>a. map_of example_results ''99'' = Some a)"
proof -
  note T = classify_all_keys_are_usgs_keys [of example_usgs_data example_rainfall_data
      "Some [gauge_a, gauge_b]" test_thresholds example_results]
  have k: "fst ` set example_usgs_data = {''11425500'', ''99''}"
    by (auto simp: example_usgs_data_def)
  have b: "test_rain_bands ''low'' = Some 0" "test_rain_bands ''medium'' = Some 50"
    "test_rain_bands ''high'' = Some 150" "test_stage_bands ''low'' = Some (7 / 10)"
    "test_stage_bands ''medium'' = Some (9 / 10)" "test_stage_bands ''high'' = Some 1"
    by (simp_all add: test_rain_bands_def test_stage_bands_def)
  have h: "has_required_keys test_thresholds"
    by (simp add: has_required_keys_def test_thresholds_def b del: not_None_eq)
  have r: "map_of example_rainfall_data ''11447650'' \<noteq> None"
    by (simp add: example_rainfall_data_def)
  from T example_classify_all
  have 1: "fst ` set example_results = fst ` set example_usgs_data"
    and 2: "\<forall>k. k \<notin> fst ` set example_usgs_data \<longrightarrow> map_of example_results k = None"
    and 3: "\<forall>k \<in> fst ` set example_usgs_data. \<exists>a. map_of example_results k = Some a"
    by blast+
  from 2 k have 4: "map_of example_results ''11447650'' = None" by simp
  from 3 k have 5: "\<exists>a. map_of example_results ''99'' = Some a" by simp
  show ?thesis using example_classify_all h 1 k 4 r 5 by simp
qed

end
